theory Spec2Isabelle
  imports Main "HOL-Library.AList"
begin

section \<open>Values, strings and errors of the Python program\<close>

text \<open>
  A Python \<open>str\<close> is a sequence of Unicode code points: slicing, \<open>len\<close> and \<open>find\<close> count
  code points. It is modelled as a list of code points. \<open>ascii\<close> turns an Isabelle string
  literal into such a list.
\<close>

type_synonym pystr = "nat list"

definition ascii :: "string \<Rightarrow> pystr" where
  "ascii s = map of_char s"

text \<open>
  Exceptions are values. The built-in exception classes the program can raise are
  constructors; \<open>Raised name\<close> is an exception class defined by the program or by a
  third-party package, by its class name (the source defines \<open>OldBoxNoteFormatError\<close>).
\<close>

datatype error = IndexError | KeyError | TypeError | ValueError | AttributeError | Raised pystr

text \<open>
  The values an attribute of a node can hold after \<open>json.load\<close>: \<open>None\<close>, a bool, an
  int or a str. (Floats, arrays and objects as attribute values are outside the model.)
\<close>

datatype jval = JNull | JBool bool | JInt int | JStr pystr

type_synonym attrs = "pystr \<rightharpoonup> jval"

datatype mark = Mark (mark_type: "pystr option") (mark_attrs: "attrs option")

text \<open>
  A content node is a dict with the optional keys \<open>type\<close>, \<open>attrs\<close>, \<open>content\<close>,
  \<open>text\<close> and \<open>marks\<close>; \<open>None\<close> is an absent key.
\<close>

datatype node = Node (ntype: "pystr option") (attrs: "attrs option")
  (content: "node list option") (ntext: "pystr option") (marks: "mark list option")

text \<open>
  What the program takes from outside its own source:
  \<^item> \<open>toRoman\<close>: \<open>roman.toRoman\<close> of the third-party package \<open>roman\<close>;
  \<open>roman_lower\<close>: \<open>str.lower\<close> on its result;
  \<^item> \<open>unicode_isspace\<close>, \<open>unicode_decimal\<close>: the Unicode character database that
  \<open>int(s, 16)\<close> consults for code points from 127 on;
  \<^item> \<open>pt_from_em\<close>: the floating-point computation of \<open>get_pt_from_em\<close>
  (\<open>Pt(float(em[:-2]) // 0.083646)\<close>) on a str;
  \<^item> \<open>image_path\<close>: the search of \<open>get_image_path\<close> in the file system.
\<close>

record env =
  toRoman :: "int \<Rightarrow> error + pystr"
  roman_lower :: "pystr \<Rightarrow> pystr"
  unicode_isspace :: "nat \<Rightarrow> bool"
  unicode_decimal :: "nat \<Rightarrow> nat option"
  pt_from_em :: "pystr \<Rightarrow> error + int"
  image_path :: "pystr \<Rightarrow> error + pystr option"

section \<open>Ordinal formatter\<close>

text \<open>\<open>str(n)\<close> of an int: decimal digits, with a minus sign for a negative number.\<close>

fun dec_digits :: "nat \<Rightarrow> pystr" where
  "dec_digits n = (if n < 10 then [48 + n] else dec_digits (n div 10) @ [48 + n mod 10])"

definition str_int :: "int \<Rightarrow> pystr" where
  "str_int i = (if i < 0 then 45 # dec_digits (nat (- i)) else dec_digits (nat i))"

text \<open>
  The loop \<open>while n > 0: digits.insert(0, n % 26); n = n // 26\<close> of
  \<open>get_ordered_list_char\<close>.
\<close>

function alpha_digits :: "int \<Rightarrow> int list \<Rightarrow> int list" where
  "alpha_digits n digits = (if n > 0 then alpha_digits (n div 26) ((n mod 26) # digits) else digits)"
  by pat_completeness auto
termination
  by (relation "measure (\<lambda>(n, digits). nat n)") auto

definition get_ordered_list_char :: "env \<Rightarrow> int \<Rightarrow> int \<Rightarrow> error + pystr" where
  "get_ordered_list_char env ordered_list_level list_depth =
     (let a = ordered_list_level mod 3 in
      if a = 1 then Inr (str_int list_depth @ ascii ''.'')
      else if a = 2 then
        Inr (map (\<lambda>digit. nat (digit + 96)) (alpha_digits list_depth []) @ ascii ''.'')
      else (case toRoman env list_depth of
              Inl e \<Rightarrow> Inl e
            | Inr r \<Rightarrow> Inr (roman_lower env r @ ascii ''.'')))"

section \<open>Style mapper: colours\<close>

text \<open>
  \<open>int(s, 16)\<close> on a str: white space around the number, an optional sign, an optional
  \<open>0x\<close> prefix, then hexadecimal digits, single underscores between them allowed.
  Anything else raises \<open>ValueError\<close>.
\<close>

definition is_space :: "env \<Rightarrow> nat \<Rightarrow> bool" where
  "is_space env c = (if c < 127 then c = 32 \<or> (9 \<le> c \<and> c \<le> 13) else unicode_isspace env c)"

definition digit_value :: "env \<Rightarrow> nat \<Rightarrow> nat option" where
  "digit_value env c =
     (if 48 \<le> c \<and> c \<le> 57 then Some (c - 48)
      else if 97 \<le> c \<and> c \<le> 122 then Some (c - 87)
      else if 65 \<le> c \<and> c \<le> 90 then Some (c - 55)
      else if 127 \<le> c then unicode_decimal env c
      else None)"

fun scan_digits :: "env \<Rightarrow> bool \<Rightarrow> nat \<Rightarrow> nat \<Rightarrow> pystr \<Rightarrow> (nat \<times> nat \<times> pystr) option" where
  "scan_digits env prev_us n v [] = (if prev_us then None else Some (n, v, []))"
| "scan_digits env prev_us n v (c # cs) =
     (if c = 95 then (if prev_us then None else scan_digits env True n v cs)
      else (case digit_value env c of
              Some d \<Rightarrow>
                if d < 16 then scan_digits env False (Suc n) (16 * v + d) cs
                else if prev_us then None else Some (n, v, c # cs)
            | None \<Rightarrow> if prev_us then None else Some (n, v, c # cs)))"

definition strip_sign :: "pystr \<Rightarrow> bool \<times> pystr" where
  "strip_sign s =
     (case s of
        [] \<Rightarrow> (False, [])
      | c # cs \<Rightarrow> if c = 43 then (False, cs) else if c = 45 then (True, cs) else (False, s))"

definition strip_prefix16 :: "pystr \<Rightarrow> pystr" where
  "strip_prefix16 s =
     (case s of
        a # b # cs \<Rightarrow>
          if a = 48 \<and> (b = 120 \<or> b = 88)
          then (case cs of [] \<Rightarrow> cs | c # cs' \<Rightarrow> if c = 95 then cs' else cs)
          else s
      | _ \<Rightarrow> s)"

definition py_int16 :: "env \<Rightarrow> pystr \<Rightarrow> error + int" where
  "py_int16 env s =
     (let (neg, s2) = strip_sign (dropWhile (is_space env) s);
          s3 = strip_prefix16 s2
      in if s3 \<noteq> [] \<and> hd s3 = 95 then Inl ValueError
         else (case scan_digits env False 0 0 s3 of
                 None \<Rightarrow> Inl ValueError
               | Some (n, v, rest) \<Rightarrow>
                   if n = 0 \<or> dropWhile (is_space env) rest \<noteq> [] then Inl ValueError
                   else Inr (if neg then - int v else int v)))"

text \<open>
  \<open>RGBColor(r, g, b)\<close> of python-docx refuses a channel outside 0..255 with
  \<open>ValueError\<close>.
\<close>

definition RGBColor :: "int \<Rightarrow> int \<Rightarrow> int \<Rightarrow> error + (int \<times> int \<times> int)" where
  "RGBColor r g b =
     (if 0 \<le> r \<and> r \<le> 255 \<and> 0 \<le> g \<and> g \<le> 255 \<and> 0 \<le> b \<and> b \<le> 255
      then Inr (r, g, b) else Inl ValueError)"

text \<open>
  \<open>get_color_from_hex\<close>: the slices \<open>hex[1:3]\<close>, \<open>hex[3:5]\<close>, \<open>hex[5:7]\<close>, each read by
  \<open>int(_, 16)\<close>. A value that is not a str cannot be sliced: \<open>TypeError\<close>.
\<close>

definition get_color_from_hex :: "env \<Rightarrow> jval \<Rightarrow> error + (int \<times> int \<times> int)" where
  "get_color_from_hex env hex =
     (case hex of
        JStr h \<Rightarrow>
          (case py_int16 env (take 2 (drop 1 h)) of
             Inl e \<Rightarrow> Inl e
           | Inr r \<Rightarrow>
               (case py_int16 env (take 2 (drop 3 h)) of
                  Inl e \<Rightarrow> Inl e
                | Inr g \<Rightarrow>
                    (case py_int16 env (take 2 (drop 5 h)) of
                       Inl e \<Rightarrow> Inl e
                     | Inr b \<Rightarrow> RGBColor r g b)))
      | _ \<Rightarrow> Inl TypeError)"

section \<open>Table geometry resolver\<close>

text \<open>
  A value used as a number (\<open>num_cols += colspan\<close>, \<open>rowspan > 1\<close>,
  \<open>range(i_row, i_row + rowspan)\<close>): an int, or a bool (Python's \<open>True\<close> is 1,
  \<open>False\<close> is 0); a str or \<open>None\<close> raises \<open>TypeError\<close>.
\<close>

definition as_int :: "jval \<Rightarrow> error + int" where
  "as_int v = (case v of JInt n \<Rightarrow> Inr n | JBool b \<Rightarrow> Inr (if b then 1 else 0) | _ \<Rightarrow> Inl TypeError)"

text \<open>A \<open>for\<close> loop over a list that threads a state and stops at the first exception.\<close>

fun for_each :: "('a \<Rightarrow> 's \<Rightarrow> error + 's) \<Rightarrow> 'a list \<Rightarrow> 's \<Rightarrow> error + 's" where
  "for_each f [] s = Inr s"
| "for_each f (x # xs) s = (case f x s of Inl e \<Rightarrow> Inl e | Inr s' \<Rightarrow> for_each f xs s')"

text \<open>The loop of \<open>get_table_dimensions\<close> over the first row, \<open>num_cols\<close> its accumulator.\<close>

fun sum_colspans :: "node list \<Rightarrow> int \<Rightarrow> error + int" where
  "sum_colspans [] num_cols = Inr num_cols"
| "sum_colspans (row_obj # rest) num_cols =
     (if ntype row_obj = Some (ascii ''table_cell'') then
        (case attrs row_obj of
           None \<Rightarrow> sum_colspans rest num_cols
         | Some a \<Rightarrow>
             (case a (ascii ''colspan'') of
                None \<Rightarrow> sum_colspans rest num_cols
              | Some v \<Rightarrow>
                  (case as_int v of
                     Inl e \<Rightarrow> Inl e
                   | Inr colspan \<Rightarrow> sum_colspans rest (num_cols + colspan))))
      else sum_colspans rest num_cols)"

text \<open>
  \<open>content_obj["content"]\<close> and \<open>row_objs[0]["content"]\<close> raise \<open>KeyError\<close> on a
  missing key, \<open>row_objs[0]\<close> raises \<open>IndexError\<close> on an empty list.
\<close>

definition get_table_dimensions :: "node \<Rightarrow> error + (int \<times> int)" where
  "get_table_dimensions content_obj =
     (case content content_obj of
        None \<Rightarrow> Inl KeyError
      | Some row_objs \<Rightarrow>
          (case row_objs of
             [] \<Rightarrow> Inl IndexError
           | first_row # _ \<Rightarrow>
               (case content first_row of
                  None \<Rightarrow> Inl KeyError
                | Some first_cells \<Rightarrow>
                    (case sum_colspans first_cells 0 of
                       Inl e \<Rightarrow> Inl e
                     | Inr num_cols \<Rightarrow> Inr (int (length row_objs), num_cols)))))"

definition get_cell_tracking_table :: "int \<Rightarrow> int \<Rightarrow> bool list list" where
  "get_cell_tracking_table r c = replicate (nat r) (replicate (nat c) False)"

fun get_table_cell_objs_rows :: "node list \<Rightarrow> error + node list" where
  "get_table_cell_objs_rows [] = Inr []"
| "get_table_cell_objs_rows (table_content_obj # rest) =
     (if ntype table_content_obj = Some (ascii ''table_row'') then
        (case content table_content_obj of
           None \<Rightarrow> Inl KeyError
         | Some row_content \<Rightarrow>
             (case get_table_cell_objs_rows rest of
                Inl e \<Rightarrow> Inl e
              | Inr others \<Rightarrow>
                  Inr (filter (\<lambda>row_content_obj. ntype row_content_obj = Some (ascii ''table_cell''))
                         row_content @ others)))
      else get_table_cell_objs_rows rest)"

definition get_table_cell_objs :: "node \<Rightarrow> error + node list" where
  "get_table_cell_objs content_obj =
     (case content content_obj of
        None \<Rightarrow> Inl KeyError
      | Some rows \<Rightarrow> get_table_cell_objs_rows rows)"

text \<open>
  The state of the scan in \<open>get_table_cell_merges\<close>: the tracking table (mutated in
  place by the source), the reversed copy of the declarations that \<open>pop()\<close> takes from
  the end, the dict \<open>cell_merges\<close> in insertion order, and \<open>placed\<close>: the
  \<open>(row_idx, col_idx)\<close> written into the popped declarations, in the order they were
  popped (the k-th entry belongs to the k-th declaration).
\<close>

record scan_state =
  tracking :: "bool list list"
  queue :: "node list"
  cell_merges :: "((nat \<times> nat) \<times> (int \<times> int)) list"
  placed :: "(nat \<times> nat) list"

text \<open>\<open>cell_tracking[i_r][i_c]\<close> read and written; an index past the end raises \<open>IndexError\<close>.\<close>

definition tracking_get :: "bool list list \<Rightarrow> nat \<Rightarrow> nat \<Rightarrow> error + bool" where
  "tracking_get g i_r i_c =
     (if i_r < length g \<and> i_c < length (g ! i_r) then Inr (g ! i_r ! i_c) else Inl IndexError)"

definition tracking_set :: "nat \<Rightarrow> nat \<Rightarrow> bool list list \<Rightarrow> error + bool list list" where
  "tracking_set i_r i_c g =
     (if i_r < length g \<and> i_c < length (g ! i_r) then Inr (g[i_r := (g ! i_r)[i_c := True]])
      else Inl IndexError)"

text \<open>
  The two nested loops over \<open>range(i_row, i_row + rowspan)\<close> and
  \<open>range(i_col, i_col + colspan)\<close> that mark the extent of a declaration.
\<close>

definition mark_extent :: "nat \<Rightarrow> nat \<Rightarrow> int \<Rightarrow> int \<Rightarrow> bool list list \<Rightarrow> error + bool list list" where
  "mark_extent i_row i_col rowspan colspan =
     for_each (\<lambda>i_r. for_each (\<lambda>i_c. tracking_set i_r i_c) [i_col ..< nat (int i_col + colspan)])
       [i_row ..< nat (int i_row + rowspan)]"

text \<open>\<open>rowspan\<close> and \<open>colspan\<close> of a declaration: 1 unless \<open>attrs\<close> holds the key.\<close>

definition span_attr :: "node \<Rightarrow> pystr \<Rightarrow> jval" where
  "span_attr table_cell_obj key =
     (case attrs table_cell_obj of
        None \<Rightarrow> JInt 1
      | Some a \<Rightarrow> (case a key of None \<Rightarrow> JInt 1 | Some v \<Rightarrow> v))"

text \<open>
  The body of the inner loop at \<open>(i_row, i_col)\<close>. A span that is not a number raises
  \<open>TypeError\<close>, in \<open>rowspan > 1 or colspan > 1\<close> or in the \<open>range\<close> of the marking
  loop, before anything is marked; the model raises it when it reads the spans.
\<close>

definition place_cell :: "nat \<Rightarrow> nat \<Rightarrow> scan_state \<Rightarrow> error + scan_state" where
  "place_cell i_row i_col s =
     (case tracking_get (tracking s) i_row i_col of
        Inl e \<Rightarrow> Inl e
      | Inr occupied \<Rightarrow>
          if occupied then Inr s
          else (case tracking_set i_row i_col (tracking s) of
                  Inl e \<Rightarrow> Inl e
                | Inr g1 \<Rightarrow>
                    if queue s = [] then Inl IndexError
                    else
                      (let table_cell_obj = last (queue s);
                           q = butlast (queue s)
                       in case as_int (span_attr table_cell_obj (ascii ''rowspan'')) of
                            Inl e \<Rightarrow> Inl e
                          | Inr rowspan \<Rightarrow>
                              (case as_int (span_attr table_cell_obj (ascii ''colspan'')) of
                                 Inl e \<Rightarrow> Inl e
                               | Inr colspan \<Rightarrow>
                                   if rowspan > 1 \<or> colspan > 1 then
                                     (case mark_extent i_row i_col rowspan colspan g1 of
                                        Inl e \<Rightarrow> Inl e
                                      | Inr g2 \<Rightarrow>
                                          Inr \<lparr>tracking = g2, queue = q,
                                            cell_merges = AList.update (i_row, i_col) (rowspan, colspan) (cell_merges s),
                                            placed = placed s @ [(i_row, i_col)]\<rparr>)
                                   else
                                     Inr \<lparr>tracking = g1, queue = q, cell_merges = cell_merges s,
                                       placed = placed s @ [(i_row, i_col)]\<rparr>))))"

definition scan_row :: "nat \<Rightarrow> scan_state \<Rightarrow> error + scan_state" where
  "scan_row i_row s =
     (if i_row < length (tracking s)
      then for_each (place_cell i_row) [0 ..< length (tracking s ! i_row)] s
      else Inl IndexError)"

definition get_table_cell_merges :: "bool list list \<Rightarrow> node list \<Rightarrow> error + scan_state" where
  "get_table_cell_merges cell_tracking table_cell_objs =
     for_each scan_row [0 ..< length cell_tracking]
       \<lparr>tracking = cell_tracking, queue = rev table_cell_objs, cell_merges = [], placed = []\<rparr>"

section \<open>The document sink\<close>

text \<open>
  The target document is built with python-docx, which is not part of the sources. The
  walker needs these facts about it, and the model holds no more:
  \<^item> paragraphs, table cells and tables are objects with identity: they live in stores
  indexed by an object id, and the globals \<open>current_paragraph\<close> and
  \<open>current_table_cell\<close> hold such ids;
  \<^item> a paragraph is a sequence of inline elements: runs (\<open>Direct\<close>, made by
  \<open>add_run\<close>) and hyperlink elements wrapping a run (\<open>Hyperlink\<close>, which the source
  appends to the paragraph by hand); \<open>paragraph.runs\<close> lists the direct runs only;
  \<open>run.text\<close> is the text the run was made with;
  \<open>run.bold\<close>, \<open>run.italic\<close>, \<open>run.underline\<close> and \<open>run.font.strike\<close> are \<open>False\<close>
  where python-docx has \<open>None\<close> (never set);
  \<^item> a new table of \<open>r\<close> rows and \<open>c\<close> columns has one cell object for each grid
  position, each with one empty paragraph; \<open>table.cell(row, col)\<close> indexes the flat
  row-major list of cells with \<open>col + row * c\<close>, as a Python list does (a negative index
  counts from the end, an index out of range raises \<open>IndexError\<close>);
  \<^item> \<open>cell.merge(other)\<close> is recorded in the table; the cell object at the origin of a
  merge is the one \<open>table.cell\<close> returns for the origin;
  \<^item> setting the fill of a shading element to \<open>None\<close> raises \<open>TypeError\<close> (lxml refuses
  a value that is not a str).
  A length is a number of English Metric Units: \<open>Pt(n)\<close> is \<open>n * 12700\<close>.
\<close>

datatype alignment = LEFT | CENTER | RIGHT | JUSTIFY

datatype highlight_index = YELLOW | BRIGHT_GREEN | PINK | GRAY_50 | TURQUOISE | RED | GRAY_25

record run =
  run_text :: pystr
  bold :: bool
  italic :: bool
  underline :: bool
  strike :: bool
  color_rgb :: "(int \<times> int \<times> int) option"
  run_highlight :: "highlight_index option"
  run_size :: "int option"
  font_name :: "pystr option"
  shade_fill :: "pystr option"
  picture :: "(pystr \<times> int) option"

definition new_run :: "pystr \<Rightarrow> run" where
  "new_run t =
     \<lparr>run_text = t, bold = False, italic = False, underline = False, strike = False,
      color_rgb = None, run_highlight = None, run_size = None, font_name = None,
      shade_fill = None, picture = None\<rparr>"

datatype inline = Direct run | Hyperlink jval run

record docx_paragraph =
  inlines :: "inline list"
  alignment :: "alignment option"
  bottom_borders :: nat

definition empty_paragraph :: docx_paragraph where
  "empty_paragraph = \<lparr>inlines = [], alignment = None, bottom_borders = 0\<rparr>"

record table_cell =
  cell_paragraphs :: "nat list"
  cell_fills :: "pystr list"

record table =
  table_columns :: nat
  table_style :: "pystr option"
  table_cells :: "nat list"
  table_merges :: "(nat \<times> nat) list"

datatype block = BlockParagraph nat | BlockTable nat

text \<open>
  The state of one conversion: the document (the three stores, the body and the next
  free object id) and the module-level globals of the source that the walker reads and
  writes. \<open>callout_emoji\<close> holds whatever value the \<open>emoji\<close> attribute has.
\<close>

record state =
  doc_paragraphs :: "nat \<Rightarrow> docx_paragraph"
  doc_cells :: "nat \<Rightarrow> table_cell"
  doc_tables :: "nat \<Rightarrow> table"
  doc_body :: "block list"
  doc_next :: nat
  current_paragraph :: "nat option"
  use_table_cell_paragraph :: bool
  current_table_cell :: "nat option"
  list_type :: "pystr option"
  list_depths :: "int \<rightharpoonup> int"
  bullet_list_level :: int
  ordered_list_level :: int
  check_list_level :: int
  in_bullet_list_item :: bool
  in_ordered_list_item :: bool
  in_check_list_item :: bool
  is_check_list_item_checked :: bool
  in_callout :: bool
  callout_emoji :: jval
  callout_bg_color :: "pystr option"
  in_code_block :: bool

definition Pt :: "int \<Rightarrow> int" where
  "Pt points = points * 12700"

definition in_to_emu :: "int \<Rightarrow> int" where
  "in_to_emu inches = inches * 914400"

text \<open>\<open>paragraph.runs\<close>: the direct runs, in order.\<close>

fun runs :: "inline list \<Rightarrow> run list" where
  "runs [] = []"
| "runs (Direct r # rest) = r # runs rest"
| "runs (Hyperlink url r # rest) = runs rest"

text \<open>\<open>document.add_paragraph()\<close>: a new empty paragraph at the end of the body.\<close>

definition document_add_paragraph :: "state \<Rightarrow> nat \<times> state" where
  "document_add_paragraph st =
     (let p = doc_next st
      in (p, st\<lparr>doc_next := Suc p,
                doc_paragraphs := (doc_paragraphs st)(p := empty_paragraph),
                doc_body := doc_body st @ [BlockParagraph p]\<rparr>))"

text \<open>\<open>cell.add_paragraph()\<close>: a new empty paragraph at the end of the cell.\<close>

definition cell_add_paragraph :: "nat \<Rightarrow> state \<Rightarrow> nat \<times> state" where
  "cell_add_paragraph c st =
     (let p = doc_next st;
          old = doc_cells st c
      in (p, st\<lparr>doc_next := Suc p,
                doc_paragraphs := (doc_paragraphs st)(p := empty_paragraph),
                doc_cells := (doc_cells st)(c := old\<lparr>cell_paragraphs := cell_paragraphs old @ [p]\<rparr>)\<rparr>))"

text \<open>Appending an inline element to a paragraph; \<open>paragraph.add_run(text)\<close>.\<close>

definition append_inline :: "nat \<Rightarrow> inline \<Rightarrow> state \<Rightarrow> state" where
  "append_inline p x st =
     (let old = doc_paragraphs st p
      in st\<lparr>doc_paragraphs := (doc_paragraphs st)(p := old\<lparr>inlines := inlines old @ [x]\<rparr>)\<rparr>)"

definition add_run :: "nat \<Rightarrow> pystr \<Rightarrow> state \<Rightarrow> state" where
  "add_run p t st = append_inline p (Direct (new_run t)) st"

text \<open>
  \<open>document.add_table(rows, cols, style)\<close>. The table gets the id \<open>doc_next\<close>; its
  \<open>k\<close>-th cell (row-major, from 0) gets the id \<open>doc_next + 1 + 2 * k\<close> and the one empty
  paragraph of that cell the id after it.
\<close>

definition document_add_table :: "int \<Rightarrow> int \<Rightarrow> pystr option \<Rightarrow> state \<Rightarrow> nat \<times> state" where
  "document_add_table rows cols style st =
     (let t = doc_next st;
          n = nat rows * nat cols;
          fresh = (\<lambda>x. t < x \<and> x \<le> t + 2 * n)
      in (t, st\<lparr>doc_next := t + 2 * n + 1,
                doc_tables := (doc_tables st)(t :=
                  \<lparr>table_columns = nat cols, table_style = style,
                   table_cells = map (\<lambda>k. t + 1 + 2 * k) [0 ..< n], table_merges = []\<rparr>),
                doc_cells := (\<lambda>x. if fresh x \<and> odd (x - t)
                                then \<lparr>cell_paragraphs = [Suc x], cell_fills = []\<rparr>
                                else doc_cells st x),
                doc_paragraphs := (\<lambda>x. if fresh x \<and> even (x - t) then empty_paragraph
                                     else doc_paragraphs st x),
                doc_body := doc_body st @ [BlockTable t]\<rparr>))"

text \<open>\<open>xs[i]\<close> on a Python list with an int index.\<close>

definition py_index :: "'a list \<Rightarrow> int \<Rightarrow> error + 'a" where
  "py_index xs i =
     (let n = int (length xs)
      in if 0 \<le> i \<and> i < n then Inr (xs ! nat i)
         else if - n \<le> i \<and> i < 0 then Inr (xs ! nat (n + i))
         else Inl IndexError)"

definition table_cell_at :: "state \<Rightarrow> nat \<Rightarrow> int \<Rightarrow> int \<Rightarrow> error + nat" where
  "table_cell_at st t row_idx col_idx =
     py_index (table_cells (doc_tables st t))
       (col_idx + row_idx * int (table_columns (doc_tables st t)))"

text \<open>
  \<open>set_cell_background_color(cell, bgcolor)\<close> and
  \<open>set_run_background_color(run, bg_color)\<close> of the source: a shading element with the
  fill is appended.
\<close>

definition set_cell_background_color :: "nat \<Rightarrow> pystr option \<Rightarrow> state \<Rightarrow> error + state" where
  "set_cell_background_color c bgcolor st =
     (case bgcolor of
        None \<Rightarrow> Inl TypeError
      | Some fill \<Rightarrow>
          (let old = doc_cells st c
           in Inr (st\<lparr>doc_cells := (doc_cells st)(c := old\<lparr>cell_fills := cell_fills old @ [fill]\<rparr>)\<rparr>)))"

definition set_run_background_color :: "run \<Rightarrow> pystr option \<Rightarrow> error + run" where
  "set_run_background_color r bg_color =
     (case bg_color of None \<Rightarrow> Inl TypeError | Some fill \<Rightarrow> Inr (r\<lparr>shade_fill := Some fill\<rparr>))"

text \<open>\<open>insert_horizontal_rule(paragraph)\<close>: one more bottom border on the paragraph.\<close>

definition insert_horizontal_rule :: "nat \<Rightarrow> state \<Rightarrow> state" where
  "insert_horizontal_rule p st =
     (let old = doc_paragraphs st p
      in st\<lparr>doc_paragraphs := (doc_paragraphs st)(p := old\<lparr>bottom_borders := Suc (bottom_borders old)\<rparr>)\<rparr>)"

text \<open>
  \<open>merge_table_cells\<close>: for every entry of \<open>cell_merges\<close>, in order, the two corner cells
  are looked up and merged.
\<close>

fun merge_table_cells ::
  "nat \<Rightarrow> ((nat \<times> nat) \<times> (int \<times> int)) list \<Rightarrow> state \<Rightarrow> error + state" where
  "merge_table_cells t [] st = Inr st"
| "merge_table_cells t (((r_idx, c_idx), (rowspan, colspan)) # rest) st =
     (case table_cell_at st t (int r_idx) (int c_idx) of
        Inl e \<Rightarrow> Inl e
      | Inr cell \<Rightarrow>
          (case table_cell_at st t (int r_idx + rowspan - 1) (int c_idx + colspan - 1) of
             Inl e \<Rightarrow> Inl e
           | Inr other_cell \<Rightarrow>
               (let old = doc_tables st t
                in merge_table_cells t rest
                     (st\<lparr>doc_tables := (doc_tables st)(t :=
                         old\<lparr>table_merges := table_merges old @ [(cell, other_cell)]\<rparr>)\<rparr>))))"

section \<open>Content walker: the parts that do not recurse\<close>

text \<open>
  The shadow text \<open>output\<close> is a Python value that is a str or \<open>None\<close> (a handler that
  falls off its end returns \<open>None\<close>): \<open>Some s\<close> is the str \<open>s\<close>. \<open>str_add\<close> is
  \<open>output + s\<close>, which raises \<open>TypeError\<close> on \<open>None\<close>.
\<close>

definition str_add :: "pystr option \<Rightarrow> pystr \<Rightarrow> error + pystr option" where
  "str_add output s = (case output of None \<Rightarrow> Inl TypeError | Some t \<Rightarrow> Inr (Some (t @ s)))"

text \<open>\<open>str(v)\<close> and the truth value of \<open>v\<close>, for an attribute value.\<close>

definition py_str :: "jval \<Rightarrow> pystr" where
  "py_str v =
     (case v of
        JNull \<Rightarrow> ascii ''None''
      | JBool b \<Rightarrow> (if b then ascii ''True'' else ascii ''False'')
      | JInt n \<Rightarrow> str_int n
      | JStr s \<Rightarrow> s)"

definition truthy :: "jval \<Rightarrow> bool" where
  "truthy v = (case v of JNull \<Rightarrow> False | JBool b \<Rightarrow> b | JInt n \<Rightarrow> n \<noteq> 0 | JStr s \<Rightarrow> s \<noteq> [])"

definition INDENT :: pystr where
  "INDENT = ascii ''    ''"

text \<open>The glyphs: the bullet U+2022, the checked box U+2611, the empty box U+2610.\<close>

definition bullet_glyph :: nat where "bullet_glyph = 8226"
definition checked_glyph :: nat where "checked_glyph = 9745"
definition unchecked_glyph :: nat where "unchecked_glyph = 9744"

text \<open>\<open>padding\<close> after \<open>for _ in range(level): padding += "  "\<close>.\<close>

definition padding_of :: "int \<Rightarrow> pystr" where
  "padding_of level = concat (replicate (nat level) (ascii ''  ''))"

definition heading_level_to_size_map :: "pystr \<rightharpoonup> int" where
  "heading_level_to_size_map =
     [ascii ''1'' \<mapsto> Pt 28, ascii ''2'' \<mapsto> Pt 20, ascii ''3'' \<mapsto> Pt 16]"

definition highlight_map :: "pystr \<rightharpoonup> highlight_index" where
  "highlight_map =
     [ascii ''#fdf0d1'' \<mapsto> YELLOW, ascii ''#d4f3e6'' \<mapsto> BRIGHT_GREEN, ascii ''#ecd9fb'' \<mapsto> PINK,
      ascii ''#fce6d1'' \<mapsto> GRAY_50, ascii ''#ccdff7'' \<mapsto> TURQUOISE, ascii ''#fbd7dd'' \<mapsto> RED,
      ascii ''#e8e8e8'' \<mapsto> GRAY_25]"

text \<open>
  \<open>get_pt_from_em(em)\<close>: \<open>em[:-2]\<close> raises \<open>TypeError\<close> on a value that is not a str; the
  floating-point computation on a str is the environment's. \<open>get_image_path\<close>
  concatenates the file name to a path (\<open>TypeError\<close> when it is not a str) and searches
  the file system.
\<close>

definition get_pt_from_em :: "env \<Rightarrow> jval \<Rightarrow> error + int" where
  "get_pt_from_em env em = (case em of JStr s \<Rightarrow> pt_from_em env s | _ \<Rightarrow> Inl TypeError)"

definition get_image_path :: "env \<Rightarrow> jval \<Rightarrow> error + pystr option" where
  "get_image_path env img_file_name =
     (case img_file_name of JStr s \<Rightarrow> image_path env s | _ \<Rightarrow> Inl TypeError)"

text \<open>Applying a change to every run of \<open>paragraph.runs\<close>.\<close>

fun map_runs :: "(run \<Rightarrow> run) \<Rightarrow> inline list \<Rightarrow> inline list" where
  "map_runs f [] = []"
| "map_runs f (Direct r # rest) = Direct (f r) # map_runs f rest"
| "map_runs f (Hyperlink link r # rest) = Hyperlink link r # map_runs f rest"

subsection \<open>Headings\<close>

text \<open>The heading size chosen from \<open>attrs.level\<close>, \<open>Pt(28)\<close> by default.\<close>

definition heading_size_of :: "node \<Rightarrow> int" where
  "heading_size_of content_obj =
     (case attrs content_obj of
        None \<Rightarrow> Pt 28
      | Some a \<Rightarrow>
          (case a (ascii ''level'') of
             None \<Rightarrow> Pt 28
           | Some level \<Rightarrow>
               (case heading_level_to_size_map (py_str level) of
                  None \<Rightarrow> Pt 28
                | Some heading_size \<Rightarrow> heading_size)))"

text \<open>
  After the content of a heading: \<open>for run in current_paragraph.runs: run.font.size =
  heading_size\<close>, then \<open>return result + "\n"\<close>.
\<close>

definition heading_finish :: "int \<Rightarrow> pystr option \<Rightarrow> state \<Rightarrow> error + (pystr option \<times> state)" where
  "heading_finish heading_size result st =
     (case current_paragraph st of
        None \<Rightarrow> Inl AttributeError
      | Some p \<Rightarrow>
          (let old = doc_paragraphs st p;
               st' = st\<lparr>doc_paragraphs := (doc_paragraphs st)(p :=
                        old\<lparr>inlines := map_runs (\<lambda>r. r\<lparr>run_size := Some heading_size\<rparr>) (inlines old)\<rparr>)\<rparr>
           in case str_add result [10] of Inl e \<Rightarrow> Inl e | Inr out \<Rightarrow> Inr (out, st')))"

subsection \<open>Paragraphs\<close>

text \<open>
  The paragraph a paragraph node writes into: the first paragraph of the current table
  cell when \<open>use_table_cell_paragraph\<close> is set, else a new paragraph of the document or
  of the current table cell.
\<close>

definition paragraph_open :: "state \<Rightarrow> error + state" where
  "paragraph_open st =
     (if use_table_cell_paragraph st then
        (case current_table_cell st of
           None \<Rightarrow> Inl AttributeError
         | Some c \<Rightarrow>
             (case cell_paragraphs (doc_cells st c) of
                [] \<Rightarrow> Inl IndexError
              | p # _ \<Rightarrow> Inr (st\<lparr>current_paragraph := Some p, use_table_cell_paragraph := False\<rparr>)))
      else
        (case current_table_cell st of
           None \<Rightarrow> (let (p, st') = document_add_paragraph st in Inr (st'\<lparr>current_paragraph := Some p\<rparr>))
         | Some c \<Rightarrow> (let (p, st') = cell_add_paragraph c st in Inr (st'\<lparr>current_paragraph := Some p\<rparr>))))"

text \<open>\<open>for _ in range(level - 1): current_paragraph.add_run(INDENT)\<close>.\<close>

definition add_indents :: "nat \<Rightarrow> int \<Rightarrow> state \<Rightarrow> state" where
  "add_indents p level st = ((add_run p INDENT) ^^ nat (level - 1)) st"

text \<open>
  The marker that opens the paragraph: the bullet, the ordinal, the check box, or, in a
  call-out outside any list item, a one-cell table with the call-out's emoji.
  \<open>list_depths[ordered_list_level]\<close> raises \<open>KeyError\<close> on a missing key.
\<close>

definition paragraph_prefix :: "env \<Rightarrow> nat \<Rightarrow> state \<Rightarrow> error + state" where
  "paragraph_prefix env p st =
     (if in_bullet_list_item st then
        Inr (add_run p [bullet_glyph, 32] (add_indents p (bullet_list_level st) st))
      else if in_ordered_list_item st then
        (case list_depths st (ordered_list_level st) of
           None \<Rightarrow> Inl KeyError
         | Some list_depth \<Rightarrow>
             (case get_ordered_list_char env (ordered_list_level st) list_depth of
                Inl e \<Rightarrow> Inl e
              | Inr marker \<Rightarrow>
                  Inr (add_run p (marker @ ascii '' '') (add_indents p (ordered_list_level st) st))))
      else if in_check_list_item st then
        Inr (add_run p
               (if is_check_list_item_checked st then [checked_glyph, 32] else [unchecked_glyph, 32])
               (add_indents p (check_list_level st) st))
      else if in_callout st then
        (let (callout_table, st1) = document_add_table 1 1 None st
         in case table_cell_at st1 callout_table 0 0 of
              Inl e \<Rightarrow> Inl e
            | Inr cell \<Rightarrow>
                (case set_cell_background_color cell (callout_bg_color st1) st1 of
                   Inl e \<Rightarrow> Inl e
                 | Inr st2 \<Rightarrow>
                     (let (p', st3) = cell_add_paragraph cell st2
                      in case callout_emoji st3 of
                           JStr emoji \<Rightarrow>
                             Inr (add_run p' (ascii '' '' @ emoji @ ascii ''  '')
                                    (st3\<lparr>current_paragraph := Some p'\<rparr>))
                         | _ \<Rightarrow> Inl TypeError)))
      else Inr st)"

text \<open>The loop over the marks of a paragraph node: the last alignment mark wins.\<close>

fun paragraph_alignment :: "mark list \<Rightarrow> alignment \<Rightarrow> alignment" where
  "paragraph_alignment [] a = a"
| "paragraph_alignment (mark_obj # rest) a =
     paragraph_alignment rest
       (if mark_type mark_obj = Some (ascii ''alignment'') then
          (case mark_attrs mark_obj of
             None \<Rightarrow> a
           | Some at \<Rightarrow>
               (case at (ascii ''alignment'') of
                  None \<Rightarrow> a
                | Some v \<Rightarrow>
                    if v = JStr (ascii ''center'') then CENTER
                    else if v = JStr (ascii ''right'') then RIGHT
                    else if v = JStr (ascii ''justify'') then JUSTIFY
                    else a))
        else a)"

text \<open>
  \<open>parse_paragraph_type\<close> up to the point where it turns to its content: the paragraph
  is chosen, the marker written and the alignment set.
\<close>

definition paragraph_start :: "env \<Rightarrow> node \<Rightarrow> state \<Rightarrow> error + state" where
  "paragraph_start env content_obj st =
     (case paragraph_open st of
        Inl e \<Rightarrow> Inl e
      | Inr st1 \<Rightarrow>
          (case current_paragraph st1 of
             None \<Rightarrow> Inl AttributeError
           | Some p \<Rightarrow>
               (case paragraph_prefix env p st1 of
                  Inl e \<Rightarrow> Inl e
                | Inr st2 \<Rightarrow>
                    (case current_paragraph st2 of
                       None \<Rightarrow> Inl AttributeError
                     | Some p2 \<Rightarrow>
                         (let a = (case marks content_obj of
                                     None \<Rightarrow> LEFT
                                   | Some ms \<Rightarrow> paragraph_alignment ms LEFT);
                              old = doc_paragraphs st2 p2
                          in Inr (st2\<lparr>doc_paragraphs := (doc_paragraphs st2)(p2 :=
                                  old\<lparr>alignment := Some a\<rparr>)\<rparr>))))))"

subsection \<open>Text\<close>

text \<open>The local variables that the marks of a text node set.\<close>

record text_style =
  is_bold :: bool
  is_italic :: bool
  is_underline :: bool
  is_strikethrough :: bool
  font_color :: "(int \<times> int \<times> int) option"
  highlight_color :: "highlight_index option"
  font_size :: "int option"
  is_hyperlink :: bool
  url :: jval

definition no_style :: text_style where
  "no_style =
     \<lparr>is_bold = False, is_italic = False, is_underline = False, is_strikethrough = False,
      font_color = None, highlight_color = None, font_size = None, is_hyperlink = False,
      url = JNull\<rparr>"

text \<open>
  One mark of a text node. A mark whose attribute is missing falls through every
  branch. \<open>get_pt_from_em\<close> and \<open>get_color_from_hex\<close> can raise.
\<close>

definition text_mark :: "env \<Rightarrow> mark \<Rightarrow> text_style \<Rightarrow> error + text_style" where
  "text_mark env mark_obj sty =
     (case mark_type mark_obj of
        None \<Rightarrow> Inr sty
      | Some ty \<Rightarrow>
          if ty = ascii ''strong'' then Inr (sty\<lparr>is_bold := True\<rparr>)
          else if ty = ascii ''em'' then Inr (sty\<lparr>is_italic := True\<rparr>)
          else if ty = ascii ''underline'' then Inr (sty\<lparr>is_underline := True\<rparr>)
          else if ty = ascii ''strikethrough'' then Inr (sty\<lparr>is_strikethrough := True\<rparr>)
          else
            (case mark_attrs mark_obj of
               None \<Rightarrow> Inr sty
             | Some at \<Rightarrow>
                 if ty = ascii ''font_size'' \<and> at (ascii ''size'') \<noteq> None then
                   (case get_pt_from_em env (the (at (ascii ''size''))) of
                      Inl e \<Rightarrow> Inl e
                    | Inr pt \<Rightarrow> Inr (sty\<lparr>font_size := Some pt\<rparr>))
                 else if ty = ascii ''font_color'' \<and> at (ascii ''color'') \<noteq> None then
                   (case get_color_from_hex env (the (at (ascii ''color''))) of
                      Inl e \<Rightarrow> Inl e
                    | Inr rgb \<Rightarrow> Inr (sty\<lparr>font_color := Some rgb\<rparr>))
                 else if ty = ascii ''highlight'' \<and> at (ascii ''color'') \<noteq> None then
                   (case the (at (ascii ''color'')) of
                      JStr hex \<Rightarrow>
                        (case highlight_map hex of
                           Some h \<Rightarrow> Inr (sty\<lparr>highlight_color := Some h\<rparr>)
                         | None \<Rightarrow> Inr (sty\<lparr>highlight_color := Some YELLOW\<rparr>))
                    | _ \<Rightarrow> Inr (sty\<lparr>highlight_color := Some YELLOW\<rparr>))
                 else if ty = ascii ''link'' \<and> at (ascii ''href'') \<noteq> None then
                   Inr (sty\<lparr>is_hyperlink := True, url := the (at (ascii ''href''))\<rparr>)
                 else Inr sty))"

definition text_marks :: "env \<Rightarrow> node \<Rightarrow> error + text_style" where
  "text_marks env content_obj =
     (case marks content_obj of
        None \<Rightarrow> Inr no_style
      | Some ms \<Rightarrow> for_each (text_mark env) ms no_style)"

text \<open>The run of a text node with its style applied.\<close>

definition styled_run :: "state \<Rightarrow> text_style \<Rightarrow> pystr \<Rightarrow> run" where
  "styled_run st sty t =
     \<lparr>run_text = t, bold = is_bold sty, italic = is_italic sty,
      underline = (is_underline sty \<or> is_hyperlink sty), strike = is_strikethrough sty,
      color_rgb = (if is_hyperlink sty then Some (26, 116, 186) else font_color sty),
      run_highlight = highlight_color sty, run_size = font_size sty,
      font_name = Some (if in_code_block st then ascii ''Courier'' else ascii ''Helvetica''),
      shade_fill = None, picture = None\<rparr>"

definition parse_text_type ::
  "env \<Rightarrow> node \<Rightarrow> pystr option \<Rightarrow> state \<Rightarrow> error + (pystr option \<times> state)" where
  "parse_text_type env content_obj output st =
     (case text_marks env content_obj of
        Inl e \<Rightarrow> Inl e
      | Inr sty \<Rightarrow>
          (case ntext content_obj of
             None \<Rightarrow> Inr (output, st)
           | Some t \<Rightarrow>
               (case current_paragraph st of
                  None \<Rightarrow> Inl AttributeError
                | Some p \<Rightarrow>
                    (case (if in_callout st
                           then set_run_background_color (styled_run st sty t) (callout_bg_color st)
                           else Inr (styled_run st sty t)) of
                       Inl e \<Rightarrow> Inl e
                     | Inr r \<Rightarrow>
                         (case str_add output t of
                            Inl e \<Rightarrow> Inl e
                          | Inr out \<Rightarrow>
                              Inr (out, append_inline p
                                          (if is_hyperlink sty then Hyperlink (url sty) r else Direct r)
                                          st))))))"

subsection \<open>Check-list items\<close>

text \<open>
  The loop after the content of a checked item: every run of \<open>paragraph.runs\<close> after
  the first one whose text contains the checked box gets \<open>font.strike = True\<close>.
\<close>

fun strike_after_check :: "bool \<Rightarrow> inline list \<Rightarrow> inline list" where
  "strike_after_check is_check_found [] = []"
| "strike_after_check is_check_found (Direct r # rest) =
     (if is_check_found then Direct (r\<lparr>strike := True\<rparr>) # strike_after_check True rest
      else if checked_glyph \<in> set (run_text r) then Direct r # strike_after_check True rest
      else Direct r # strike_after_check False rest)"
| "strike_after_check is_check_found (Hyperlink link r # rest) =
     Hyperlink link r # strike_after_check is_check_found rest"

text \<open>The flag \<open>is_check_list_item_checked\<close> after the attributes of the item were read.\<close>

definition read_checked :: "node \<Rightarrow> state \<Rightarrow> state" where
  "read_checked content_obj st =
     (case attrs content_obj of
        None \<Rightarrow> st
      | Some a \<Rightarrow>
          (case a (ascii ''checked'') of
             None \<Rightarrow> st
           | Some v \<Rightarrow> st\<lparr>is_check_list_item_checked := truthy v\<rparr>))"

text \<open>
  After the content of a check-list item:
  \<open>if is_check_list_item_checked and len(current_paragraph.runs) > 1: ...\<close>.
\<close>

definition check_list_item_finish :: "state \<Rightarrow> error + state" where
  "check_list_item_finish st =
     (if is_check_list_item_checked st then
        (case current_paragraph st of
           None \<Rightarrow> Inl AttributeError
         | Some p \<Rightarrow>
             (let old = doc_paragraphs st p
              in if length (runs (inlines old)) > 1
                 then Inr (st\<lparr>doc_paragraphs := (doc_paragraphs st)(p :=
                              old\<lparr>inlines := strike_after_check False (inlines old)\<rparr>)\<rparr>)
                 else Inr st))
      else Inr st)"

subsection \<open>Images, rules, call-outs, code blocks\<close>

text \<open>
  \<open>parse_image_type\<close>. Without \<open>attrs.fileName\<close> the function falls off its end and
  returns \<open>None\<close>.
\<close>

definition parse_image_type ::
  "env \<Rightarrow> node \<Rightarrow> pystr option \<Rightarrow> state \<Rightarrow> error + (pystr option \<times> state)" where
  "parse_image_type env content_obj output st =
     (case attrs content_obj of
        None \<Rightarrow> Inr (None, st)
      | Some a \<Rightarrow>
          (case a (ascii ''fileName'') of
             None \<Rightarrow> Inr (None, st)
           | Some image_file_name \<Rightarrow>
               (case get_image_path env image_file_name of
                  Inl e \<Rightarrow> Inl e
                | Inr image_file_path \<Rightarrow>
                    (case (case image_file_path of
                             Some path \<Rightarrow>
                               (if current_table_cell st = None then
                                  (let (p, st') = document_add_paragraph st
                                   in Inr (append_inline p
                                        (Direct ((new_run [])\<lparr>picture := Some (path, in_to_emu 6)\<rparr>)) st'))
                                else
                                  (case current_paragraph st of
                                     None \<Rightarrow> Inl AttributeError
                                   | Some p \<Rightarrow>
                                       Inr (append_inline p
                                         (Direct ((new_run [])\<lparr>picture := Some (path, in_to_emu 1)\<rparr>)) st)))
                           | None \<Rightarrow>
                               (case current_paragraph st of
                                  None \<Rightarrow> Inl AttributeError
                                | Some p \<Rightarrow>
                                    Inr (add_run p (ascii ''MISSING IMAGE: '' @ py_str image_file_name) st))) of
                       Inl e \<Rightarrow> Inl e
                     | Inr st' \<Rightarrow>
                         (case str_add output (ascii ''image: '' @ py_str image_file_name) of
                            Inl e \<Rightarrow> Inl e
                          | Inr out \<Rightarrow> Inr (out, st'))))))"

definition parse_horizontal_rule_type ::
  "node \<Rightarrow> pystr option \<Rightarrow> state \<Rightarrow> error + (pystr option \<times> state)" where
  "parse_horizontal_rule_type content_obj output st =
     (let st1 = (case current_paragraph st of
                   None \<Rightarrow> (let (p, st') = document_add_paragraph st in st'\<lparr>current_paragraph := Some p\<rparr>)
                 | Some p \<Rightarrow> st)
      in case current_paragraph st1 of
           None \<Rightarrow> Inl AttributeError
         | Some p \<Rightarrow>
             (case str_add output (10 # ascii ''----------'' @ [10]) of
                Inl e \<Rightarrow> Inl e
              | Inr out \<Rightarrow> Inr (out, insert_horizontal_rule p st1)))"

text \<open>
  The globals of a call-out after its attributes were read:
  \<open>backgroundColor[1:]\<close> raises \<open>TypeError\<close> on a value that is not a str.
\<close>

definition call_out_start :: "node \<Rightarrow> state \<Rightarrow> error + state" where
  "call_out_start content_obj st =
     (let st1 = st\<lparr>in_callout := True, callout_emoji := JStr []\<rparr>
      in case attrs content_obj of
           None \<Rightarrow> Inr st1
         | Some a \<Rightarrow>
             (case (case a (ascii ''backgroundColor'') of
                      None \<Rightarrow> Inr st1
                    | Some (JStr bg) \<Rightarrow> Inr (st1\<lparr>callout_bg_color := Some (drop 1 bg)\<rparr>)
                    | Some _ \<Rightarrow> Inl TypeError) of
                Inl e \<Rightarrow> Inl e
              | Inr st2 \<Rightarrow>
                  (case a (ascii ''emoji'') of
                     None \<Rightarrow> Inr st2
                   | Some emoji \<Rightarrow> Inr (st2\<lparr>callout_emoji := emoji\<rparr>))))"

text \<open>\<open>output + callout_emoji + " "\<close>.\<close>

definition call_out_output :: "pystr option \<Rightarrow> state \<Rightarrow> error + pystr option" where
  "call_out_output output st =
     (case output of
        None \<Rightarrow> Inl TypeError
      | Some t \<Rightarrow>
          (case callout_emoji st of
             JStr emoji \<Rightarrow> Inr (Some (t @ emoji @ ascii '' ''))
           | _ \<Rightarrow> Inl TypeError))"

text \<open>
  The start of \<open>parse_code_block\<close>: a one-cell table with the fixed fill, whose first
  paragraph becomes the current paragraph.
\<close>

definition code_block_start :: "state \<Rightarrow> error + state" where
  "code_block_start st =
     (let (t, st1) = document_add_table 1 1 None (st\<lparr>in_code_block := True\<rparr>)
      in case table_cell_at st1 t 0 0 of
           Inl e \<Rightarrow> Inl e
         | Inr cell \<Rightarrow>
             (case set_cell_background_color cell (Some (ascii ''ccdff7'')) st1 of
                Inl e \<Rightarrow> Inl e
              | Inr st2 \<Rightarrow>
                  (case cell_paragraphs (doc_cells st2 cell) of
                     [] \<Rightarrow> Inl IndexError
                   | p # _ \<Rightarrow> Inr (st2\<lparr>current_paragraph := Some p\<rparr>))))"

section \<open>Content walker: the recursion\<close>

lemma content_smaller [termination_simp]:
  "content n = Some cs \<Longrightarrow> size_list size cs < size n"
  by (cases n) simp

lemma filter_size_le: "size_list size (filter P xs) \<le> size_list size xs"
  by (induction xs) auto

lemma table_cell_objs_rows_smaller:
  "get_table_cell_objs_rows rows = Inr cs \<Longrightarrow> size_list size cs \<le> size_list size rows"
proof (induction rows arbitrary: cs)
  case Nil
  then show ?case by simp
next
  case (Cons row rows)
  show ?case
  proof (cases "ntype row = Some (ascii ''table_row'')")
    case True
    with Cons.prems obtain row_content others where
      parts: "content row = Some row_content" "get_table_cell_objs_rows rows = Inr others"
        "cs = filter (\<lambda>c. ntype c = Some (ascii ''table_cell'')) row_content @ others"
      by (auto split: option.splits sum.splits)
    have "size_list size row_content < size row" using parts(1) by (rule content_smaller)
    moreover have "size_list size (filter (\<lambda>c. ntype c = Some (ascii ''table_cell'')) row_content)
        \<le> size_list size row_content"
      by (rule filter_size_le)
    moreover have "size_list size others \<le> size_list size rows" using parts(2) by (rule Cons.IH)
    ultimately show ?thesis by (simp add: parts(3) size_list_append)
  next
    case False
    with Cons.prems have "get_table_cell_objs_rows rows = Inr cs" by simp
    from Cons.IH[OF this] show ?thesis by simp
  qed
qed

lemma table_cell_objs_smaller [termination_simp]:
  "get_table_cell_objs n = Inr cs \<Longrightarrow> size_list size cs < size n"
proof -
  assume a: "get_table_cell_objs n = Inr cs"
  then obtain rows where rows: "content n = Some rows" "get_table_cell_objs_rows rows = Inr cs"
    by (auto simp add: get_table_cell_objs_def split: option.splits)
  from table_cell_objs_rows_smaller[OF rows(2)] content_smaller[OF rows(1)] show ?thesis by simp
qed

lemma content_measure:
  assumes "content n = Some cs"
  shows "Suc (2 * size_list size cs) < 2 * size n"
  using content_smaller[OF assms] by arith

lemma cell_content_measure:
  assumes "get_table_cell_objs n = Inr cells" "cell \<in> set cells" "content cell = Some cs"
  shows "Suc (2 * size_list size cs) < 2 * size n"
proof -
  have "size cell \<le> size_list size cells" using assms(2) by (rule size_list_estimation') simp
  with table_cell_objs_smaller[OF assms(1)] content_smaller[OF assms(3)] show ?thesis by arith
qed

text \<open>
  The handlers that turn to the content of their node. Each takes \<open>parse_contents\<close>,
  the walk over a list of nodes that the source calls by name, as its first argument;
  the recursion below passes the walker itself. Every handler takes the shadow text and
  the state and returns both, or the exception that ended the walk.
\<close>

type_synonym walk = "node list \<Rightarrow> pystr option \<Rightarrow> state \<Rightarrow> error + (pystr option \<times> state)"

definition parse_heading_type :: "walk \<Rightarrow> node \<Rightarrow> pystr option \<Rightarrow> state \<Rightarrow> error + (pystr option \<times> state)" where
  "parse_heading_type parse_contents content_obj output st =
     (let (p, st0) = document_add_paragraph st;
          st1 = st0\<lparr>current_paragraph := Some p\<rparr>
      in case content content_obj of
           Some cs \<Rightarrow>
             (case parse_contents cs output st1 of
                Inl e \<Rightarrow> Inl e
              | Inr (result, st2) \<Rightarrow> heading_finish (heading_size_of content_obj) result st2)
         | None \<Rightarrow>
             (case str_add output [10] of Inl e \<Rightarrow> Inl e | Inr out \<Rightarrow> Inr (out, st1)))"

definition parse_paragraph_type :: "env \<Rightarrow> walk \<Rightarrow> node \<Rightarrow> pystr option \<Rightarrow> state \<Rightarrow> error + (pystr option \<times> state)" where
  "parse_paragraph_type env parse_contents content_obj output st =
     (case paragraph_start env content_obj st of
        Inl e \<Rightarrow> Inl e
      | Inr st1 \<Rightarrow>
          (case content content_obj of
             Some cs \<Rightarrow>
               (case parse_contents cs output st1 of
                  Inl e \<Rightarrow> Inl e
                | Inr (result, st2) \<Rightarrow>
                    (case str_add result [10] of Inl e \<Rightarrow> Inl e | Inr out \<Rightarrow> Inr (out, st2)))
           | None \<Rightarrow>
               (case str_add output [10] of Inl e \<Rightarrow> Inl e | Inr out \<Rightarrow> Inr (out, st1))))"

definition parse_bullet_list_type :: "walk \<Rightarrow> node \<Rightarrow> pystr option \<Rightarrow> state \<Rightarrow> error + (pystr option \<times> state)" where
  "parse_bullet_list_type parse_contents content_obj output st =
     (let st1 = st\<lparr>list_type := Some (ascii ''bullet''),
                   bullet_list_level := bullet_list_level st + 1\<rparr>
      in case content content_obj of
           Some cs \<Rightarrow>
             (case parse_contents cs output st1 of
                Inl e \<Rightarrow> Inl e
              | Inr (result, st2) \<Rightarrow>
                  Inr (result, st2\<lparr>bullet_list_level := bullet_list_level st2 - 1\<rparr>))
         | None \<Rightarrow> Inr (output, st1))"

definition parse_ordered_list_type :: "walk \<Rightarrow> node \<Rightarrow> pystr option \<Rightarrow> state \<Rightarrow> error + (pystr option \<times> state)" where
  "parse_ordered_list_type parse_contents content_obj output st =
     (let st1 = st\<lparr>list_type := Some (ascii ''ordered''),
                   ordered_list_level := ordered_list_level st + 1,
                   list_depths := (list_depths st)(ordered_list_level st + 1 \<mapsto> 0)\<rparr>
      in case content content_obj of
           Some cs \<Rightarrow>
             (case parse_contents cs output st1 of
                Inl e \<Rightarrow> Inl e
              | Inr (result, st2) \<Rightarrow>
                  Inr (result, st2\<lparr>ordered_list_level := ordered_list_level st2 - 1\<rparr>))
         | None \<Rightarrow> Inr (output, st1))"

definition parse_check_list_type :: "walk \<Rightarrow> node \<Rightarrow> pystr option \<Rightarrow> state \<Rightarrow> error + (pystr option \<times> state)" where
  "parse_check_list_type parse_contents content_obj output st =
     (let st1 = st\<lparr>list_type := Some (ascii ''check''),
                   check_list_level := check_list_level st + 1\<rparr>
      in case content content_obj of
           Some cs \<Rightarrow>
             (case parse_contents cs output st1 of
                Inl e \<Rightarrow> Inl e
              | Inr (result, st2) \<Rightarrow>
                  Inr (result, st2\<lparr>check_list_level := check_list_level st2 - 1\<rparr>))
         | None \<Rightarrow> Inr (output, st1))"

definition parse_check_list_item_type :: "walk \<Rightarrow> node \<Rightarrow> pystr option \<Rightarrow> state \<Rightarrow> error + (pystr option \<times> state)" where
  "parse_check_list_item_type parse_contents content_obj output st =
     (let st1 = read_checked content_obj st
      in case content content_obj of
           Some cs \<Rightarrow>
             (case str_add output
                     (padding_of (check_list_level st1) @
                        (if is_check_list_item_checked st1 then [checked_glyph, 32]
                         else [unchecked_glyph, 32])) of
                Inl e \<Rightarrow> Inl e
              | Inr output1 \<Rightarrow>
                  (case parse_contents cs output1 (st1\<lparr>in_check_list_item := True\<rparr>) of
                     Inl e \<Rightarrow> Inl e
                   | Inr (result, st2) \<Rightarrow>
                       (case check_list_item_finish (st2\<lparr>in_check_list_item := False\<rparr>) of
                          Inl e \<Rightarrow> Inl e
                        | Inr st3 \<Rightarrow> Inr (result, st3))))
         | None \<Rightarrow> Inr (output, st1))"

text \<open>
  The first statement of \<open>parse_list_item_type\<close>:
  \<open>if list_type == "ordered": list_depths[ordered_list_level] += 1\<close>.
\<close>

definition count_list_item :: "state \<Rightarrow> error + state" where
  "count_list_item st =
     (if list_type st = Some (ascii ''ordered'') then
        (case list_depths st (ordered_list_level st) of
           None \<Rightarrow> Inl KeyError
         | Some d \<Rightarrow> Inr (st\<lparr>list_depths := (list_depths st)(ordered_list_level st \<mapsto> d + 1)\<rparr>))
      else Inr st)"

text \<open>The marker of a list item in the shadow text, and the flag of its list kind.\<close>

definition list_item_marker :: "env \<Rightarrow> pystr option \<Rightarrow> state \<Rightarrow> error + (pystr option \<times> state)" where
  "list_item_marker env output st =
     (if list_type st = Some (ascii ''bullet'') then
        (case str_add output (padding_of (bullet_list_level st) @ ascii ''- '') of
           Inl e \<Rightarrow> Inl e
         | Inr out \<Rightarrow> Inr (out, st\<lparr>in_bullet_list_item := True\<rparr>))
      else if list_type st = Some (ascii ''ordered'') then
        (case list_depths st (ordered_list_level st) of
           None \<Rightarrow> Inl KeyError
         | Some d \<Rightarrow>
             (case get_ordered_list_char env (ordered_list_level st) d of
                Inl e \<Rightarrow> Inl e
              | Inr marker \<Rightarrow>
                  (case str_add output (padding_of (ordered_list_level st) @ marker @ ascii '' '') of
                     Inl e \<Rightarrow> Inl e
                   | Inr out \<Rightarrow> Inr (out, st\<lparr>in_ordered_list_item := True\<rparr>))))
      else Inr (output, st))"

definition parse_list_item_type :: "env \<Rightarrow> walk \<Rightarrow> node \<Rightarrow> pystr option \<Rightarrow> state \<Rightarrow> error + (pystr option \<times> state)" where
  "parse_list_item_type env parse_contents content_obj output st =
     (case count_list_item st of
        Inl e \<Rightarrow> Inl e
      | Inr st1 \<Rightarrow>
          (case content content_obj of
             Some cs \<Rightarrow>
               (case list_item_marker env output st1 of
                  Inl e \<Rightarrow> Inl e
                | Inr (output1, st2) \<Rightarrow>
                    (case parse_contents cs output1 st2 of
                       Inl e \<Rightarrow> Inl e
                     | Inr (result, st3) \<Rightarrow>
                         Inr (result, st3\<lparr>in_bullet_list_item := False,
                                          in_ordered_list_item := False\<rparr>)))
           | None \<Rightarrow> Inr (output, st1)))"

text \<open>
  \<open>parse_table_cell_type\<close> gets the \<open>(row_idx, col_idx)\<close> that the scan wrote into the
  declaration, \<open>None\<close> when it wrote none (\<open>table_cell_obj["row_idx"]\<close> then raises
  \<open>KeyError\<close>); \<open>parse_table_cells\<close> is the loop of \<open>parse_table_type\<close> over the
  declarations.
\<close>

definition parse_table_cell_type :: "walk \<Rightarrow> node \<Rightarrow> (nat \<times> nat) option \<Rightarrow> nat \<Rightarrow> state \<Rightarrow> error + state" where
  "parse_table_cell_type parse_contents table_cell_obj idx t st =
     (case idx of
        None \<Rightarrow> Inl KeyError
      | Some (row_idx, col_idx) \<Rightarrow>
          (case table_cell_at st t (int row_idx) (int col_idx) of
             Inl e \<Rightarrow> Inl e
           | Inr c \<Rightarrow>
               (case content table_cell_obj of
                  None \<Rightarrow> Inl KeyError
                | Some cs \<Rightarrow>
                    (case parse_contents cs (Some [])
                            (st\<lparr>current_table_cell := Some c, use_table_cell_paragraph := True\<rparr>) of
                       Inl e \<Rightarrow> Inl e
                     | Inr (result, st') \<Rightarrow> Inr st'))))"

fun parse_table_cells :: "walk \<Rightarrow> node list \<Rightarrow> (nat \<times> nat) list \<Rightarrow> nat \<Rightarrow> state \<Rightarrow> error + state" where
  "parse_table_cells parse_contents [] idxs t st = Inr st"
| "parse_table_cells parse_contents (table_cell_obj # rest) idxs t st =
     (case parse_table_cell_type parse_contents table_cell_obj
             (case idxs of [] \<Rightarrow> None | i # _ \<Rightarrow> Some i) t st of
        Inl e \<Rightarrow> Inl e
      | Inr st' \<Rightarrow> parse_table_cells parse_contents rest (tl idxs) t st')"

definition parse_table_type :: "walk \<Rightarrow> node \<Rightarrow> pystr option \<Rightarrow> state \<Rightarrow> error + (pystr option \<times> state)" where
  "parse_table_type parse_contents content_obj output st =
     (case get_table_dimensions content_obj of
        Inl e \<Rightarrow> Inl e
      | Inr (r, c) \<Rightarrow>
          (case get_table_cell_objs content_obj of
             Inl e \<Rightarrow> Inl e
           | Inr table_cell_objs \<Rightarrow>
               (case get_table_cell_merges (get_cell_tracking_table r c) table_cell_objs of
                  Inl e \<Rightarrow> Inl e
                | Inr scan \<Rightarrow>
                    (let (t, st1) = document_add_table r c (Some (ascii ''Table Grid'')) st
                     in case merge_table_cells t (cell_merges scan) st1 of
                          Inl e \<Rightarrow> Inl e
                        | Inr st2 \<Rightarrow>
                            (case parse_table_cells parse_contents table_cell_objs (placed scan) t st2 of
                               Inl e \<Rightarrow> Inl e
                             | Inr st3 \<Rightarrow>
                                 (case str_add output
                                         (ascii ''<Table '' @ str_int r @ ascii '' x '' @ str_int c
                                            @ ascii ''>'') of
                                    Inl e \<Rightarrow> Inl e
                                  | Inr out \<Rightarrow>
                                      Inr (out, st3\<lparr>current_table_cell := None,
                                                    use_table_cell_paragraph := False\<rparr>)))))))"

definition parse_call_out_box :: "walk \<Rightarrow> node \<Rightarrow> pystr option \<Rightarrow> state \<Rightarrow> error + (pystr option \<times> state)" where
  "parse_call_out_box parse_contents content_obj output st =
     (case call_out_start content_obj st of
        Inl e \<Rightarrow> Inl e
      | Inr st1 \<Rightarrow>
          (case content content_obj of
             Some cs \<Rightarrow>
               (case call_out_output output st1 of
                  Inl e \<Rightarrow> Inl e
                | Inr output1 \<Rightarrow>
                    (case parse_contents cs output1 st1 of
                       Inl e \<Rightarrow> Inl e
                     | Inr (result, st2) \<Rightarrow>
                         (case str_add result [10] of
                            Inl e \<Rightarrow> Inl e
                          | Inr out \<Rightarrow> Inr (out, st2\<lparr>in_callout := False\<rparr>))))
           | None \<Rightarrow> Inr (output, st1)))"

definition parse_code_block :: "walk \<Rightarrow> node \<Rightarrow> pystr option \<Rightarrow> state \<Rightarrow> error + (pystr option \<times> state)" where
  "parse_code_block parse_contents content_obj output st =
     (case code_block_start st of
        Inl e \<Rightarrow> Inl e
      | Inr st1 \<Rightarrow>
          (case content content_obj of
             Some cs \<Rightarrow>
               (case parse_contents cs output st1 of
                  Inl e \<Rightarrow> Inl e
                | Inr (result, st2) \<Rightarrow>
                    (case str_add result [10] of
                       Inl e \<Rightarrow> Inl e
                     | Inr out \<Rightarrow> Inr (out, st2\<lparr>in_code_block := False\<rparr>)))
           | None \<Rightarrow> Inr (output, st1)))"

text \<open>
  In \<open>parse_blockquote\<close> the assignment \<open>in_code_block = False\<close> is to a local variable
  (the function declares no global) and changes nothing.
\<close>

definition parse_blockquote :: "walk \<Rightarrow> node \<Rightarrow> pystr option \<Rightarrow> state \<Rightarrow> error + (pystr option \<times> state)" where
  "parse_blockquote parse_contents content_obj output st =
     (case content content_obj of
        Some cs \<Rightarrow>
          (case parse_contents cs output st of
             Inl e \<Rightarrow> Inl e
           | Inr (result, st2) \<Rightarrow>
               (case str_add result [10] of Inl e \<Rightarrow> Inl e | Inr out \<Rightarrow> Inr (out, st2)))
      | None \<Rightarrow> Inr (output, st))"

text \<open>
  A handler calls \<open>parse_contents\<close> on the content of its node only (the table handler:
  on the content of the declarations of its table), so two walkers that agree there
  give the same result.
\<close>

lemma parse_heading_type_cong [fundef_cong]:
  assumes "content_obj = content_obj'" "output = output'" "st = st'"
    and "\<And>cs out s. content content_obj' = Some cs \<Longrightarrow> pc cs out s = pc' cs out s"
  shows "parse_heading_type pc content_obj output st = parse_heading_type pc' content_obj' output' st'"
  using assms by (auto simp add: parse_heading_type_def Let_def split: option.splits sum.splits prod.splits)

lemma parse_paragraph_type_cong [fundef_cong]:
  assumes "content_obj = content_obj'" "output = output'" "st = st'"
    and "\<And>cs out s. content content_obj' = Some cs \<Longrightarrow> pc cs out s = pc' cs out s"
  shows "parse_paragraph_type env pc content_obj output st = parse_paragraph_type env pc' content_obj' output' st'"
  using assms by (auto simp add: parse_paragraph_type_def Let_def split: option.splits sum.splits prod.splits)

lemma parse_bullet_list_type_cong [fundef_cong]:
  assumes "content_obj = content_obj'" "output = output'" "st = st'"
    and "\<And>cs out s. content content_obj' = Some cs \<Longrightarrow> pc cs out s = pc' cs out s"
  shows "parse_bullet_list_type pc content_obj output st = parse_bullet_list_type pc' content_obj' output' st'"
  using assms by (auto simp add: parse_bullet_list_type_def Let_def split: option.splits sum.splits prod.splits)

lemma parse_ordered_list_type_cong [fundef_cong]:
  assumes "content_obj = content_obj'" "output = output'" "st = st'"
    and "\<And>cs out s. content content_obj' = Some cs \<Longrightarrow> pc cs out s = pc' cs out s"
  shows "parse_ordered_list_type pc content_obj output st = parse_ordered_list_type pc' content_obj' output' st'"
  using assms by (auto simp add: parse_ordered_list_type_def Let_def split: option.splits sum.splits prod.splits)

lemma parse_check_list_type_cong [fundef_cong]:
  assumes "content_obj = content_obj'" "output = output'" "st = st'"
    and "\<And>cs out s. content content_obj' = Some cs \<Longrightarrow> pc cs out s = pc' cs out s"
  shows "parse_check_list_type pc content_obj output st = parse_check_list_type pc' content_obj' output' st'"
  using assms by (auto simp add: parse_check_list_type_def Let_def split: option.splits sum.splits prod.splits)

lemma parse_check_list_item_type_cong [fundef_cong]:
  assumes "content_obj = content_obj'" "output = output'" "st = st'"
    and "\<And>cs out s. content content_obj' = Some cs \<Longrightarrow> pc cs out s = pc' cs out s"
  shows "parse_check_list_item_type pc content_obj output st = parse_check_list_item_type pc' content_obj' output' st'"
  using assms by (auto simp add: parse_check_list_item_type_def Let_def split: option.splits sum.splits prod.splits)

lemma parse_list_item_type_cong [fundef_cong]:
  assumes "content_obj = content_obj'" "output = output'" "st = st'"
    and "\<And>cs out s. content content_obj' = Some cs \<Longrightarrow> pc cs out s = pc' cs out s"
  shows "parse_list_item_type env pc content_obj output st = parse_list_item_type env pc' content_obj' output' st'"
  using assms by (auto simp add: parse_list_item_type_def Let_def split: option.splits sum.splits prod.splits)

lemma parse_call_out_box_cong [fundef_cong]:
  assumes "content_obj = content_obj'" "output = output'" "st = st'"
    and "\<And>cs out s. content content_obj' = Some cs \<Longrightarrow> pc cs out s = pc' cs out s"
  shows "parse_call_out_box pc content_obj output st = parse_call_out_box pc' content_obj' output' st'"
  using assms by (auto simp add: parse_call_out_box_def Let_def split: option.splits sum.splits prod.splits)

lemma parse_code_block_cong [fundef_cong]:
  assumes "content_obj = content_obj'" "output = output'" "st = st'"
    and "\<And>cs out s. content content_obj' = Some cs \<Longrightarrow> pc cs out s = pc' cs out s"
  shows "parse_code_block pc content_obj output st = parse_code_block pc' content_obj' output' st'"
  using assms by (auto simp add: parse_code_block_def Let_def split: option.splits sum.splits prod.splits)

lemma parse_blockquote_cong [fundef_cong]:
  assumes "content_obj = content_obj'" "output = output'" "st = st'"
    and "\<And>cs out s. content content_obj' = Some cs \<Longrightarrow> pc cs out s = pc' cs out s"
  shows "parse_blockquote pc content_obj output st = parse_blockquote pc' content_obj' output' st'"
  using assms by (auto simp add: parse_blockquote_def Let_def split: option.splits sum.splits prod.splits)

lemma parse_table_cell_type_agree:
  assumes "\<And>cs out s. content table_cell_obj = Some cs \<Longrightarrow> pc cs out s = pc' cs out s"
  shows "parse_table_cell_type pc table_cell_obj idx t st = parse_table_cell_type pc' table_cell_obj idx t st"
  using assms
  by (cases "content table_cell_obj")
    (simp_all add: parse_table_cell_type_def split: option.splits prod.splits sum.splits)

lemma parse_table_cells_agree:
  assumes "\<And>cell cs out s. cell \<in> set cells \<Longrightarrow> content cell = Some cs \<Longrightarrow> pc cs out s = pc' cs out s"
  shows "parse_table_cells pc cells idxs t st = parse_table_cells pc' cells idxs t st"
  using assms
proof (induction cells arbitrary: idxs st)
  case Nil
  then show ?case by simp
next
  case (Cons cell cells)
  have head: "parse_table_cell_type pc cell idx t s = parse_table_cell_type pc' cell idx t s" for idx s
  proof (rule parse_table_cell_type_agree)
    fix cs out u assume "content cell = Some cs"
    then show "pc cs out u = pc' cs out u" using Cons.prems[of cell cs out u] by simp
  qed
  have rest: "parse_table_cells pc cells ix t s = parse_table_cells pc' cells ix t s" for ix s
  proof (rule Cons.IH)
    fix c cs out u assume "c \<in> set cells" "content c = Some cs"
    then show "pc cs out u = pc' cs out u" using Cons.prems[of c cs out u] by simp
  qed
  show ?case by (simp add: head rest split: sum.splits)
qed

lemma parse_table_type_cong [fundef_cong]:
  assumes "content_obj = content_obj'" "output = output'" "st = st'"
    and "\<And>cells cell cs out s. get_table_cell_objs content_obj' = Inr cells \<Longrightarrow> cell \<in> set cells \<Longrightarrow>
           content cell = Some cs \<Longrightarrow> pc cs out s = pc' cs out s"
  shows "parse_table_type pc content_obj output st = parse_table_type pc' content_obj' output' st'"
proof (cases "get_table_cell_objs content_obj'")
  case (Inl e)
  with assms(1-3) show ?thesis by (simp add: parse_table_type_def split: sum.splits prod.splits)
next
  case (Inr cells)
  have "parse_table_cells pc cells idxs t s = parse_table_cells pc' cells idxs t s" for idxs t s
    by (rule parse_table_cells_agree) (rule assms(4)[OF Inr])
  with assms(1-3) Inr show ?thesis
    by (simp add: parse_table_type_def split: sum.splits prod.splits)
qed

text \<open>
  \<open>parse_contents\<close> and the dispatch \<open>parse_content_type\<close>. A node without a \<open>type\<close>
  key is skipped; a type that no handler knows leaves the text and the state as they
  are.
\<close>

function
  parse_contents :: "env \<Rightarrow> node list \<Rightarrow> pystr option \<Rightarrow> state \<Rightarrow> error + (pystr option \<times> state)"
  and parse_content_type :: "env \<Rightarrow> node \<Rightarrow> pystr option \<Rightarrow> state \<Rightarrow> error + (pystr option \<times> state)"
where
  "parse_contents env [] output st = Inr (output, st)"
| "parse_contents env (content_obj # rest) output st =
     (if ntype content_obj \<noteq> None then
        (case parse_content_type env content_obj output st of
           Inl e \<Rightarrow> Inl e
         | Inr (output', st') \<Rightarrow> parse_contents env rest output' st')
      else parse_contents env rest output st)"
| "parse_content_type env content_obj output st =
     (if ntype content_obj = Some (ascii ''heading'') then
        parse_heading_type (\<lambda>cs out s. parse_contents env cs out s) content_obj output st
      else if ntype content_obj = Some (ascii ''paragraph'') then
        parse_paragraph_type env (\<lambda>cs out s. parse_contents env cs out s) content_obj output st
      else if ntype content_obj = Some (ascii ''text'') then
        parse_text_type env content_obj output st
      else if ntype content_obj = Some (ascii ''bullet_list'') then
        parse_bullet_list_type (\<lambda>cs out s. parse_contents env cs out s) content_obj output st
      else if ntype content_obj = Some (ascii ''ordered_list'') then
        parse_ordered_list_type (\<lambda>cs out s. parse_contents env cs out s) content_obj output st
      else if ntype content_obj = Some (ascii ''check_list'') then
        parse_check_list_type (\<lambda>cs out s. parse_contents env cs out s) content_obj output st
      else if ntype content_obj = Some (ascii ''list_item'') then
        parse_list_item_type env (\<lambda>cs out s. parse_contents env cs out s) content_obj output st
      else if ntype content_obj = Some (ascii ''check_list_item'') then
        parse_check_list_item_type (\<lambda>cs out s. parse_contents env cs out s) content_obj output st
      else if ntype content_obj = Some (ascii ''image'') then
        parse_image_type env content_obj output st
      else if ntype content_obj = Some (ascii ''table'') then
        parse_table_type (\<lambda>cs out s. parse_contents env cs out s) content_obj output st
      else if ntype content_obj = Some (ascii ''horizontal_rule'') then
        parse_horizontal_rule_type content_obj output st
      else if ntype content_obj = Some (ascii ''call_out_box'') then
        parse_call_out_box (\<lambda>cs out s. parse_contents env cs out s) content_obj output st
      else if ntype content_obj = Some (ascii ''code_block'') then
        parse_code_block (\<lambda>cs out s. parse_contents env cs out s) content_obj output st
      else if ntype content_obj = Some (ascii ''blockquote'') then
        parse_blockquote (\<lambda>cs out s. parse_contents env cs out s) content_obj output st
      else Inr (output, st))"
  by pat_completeness auto
termination
  by (relation "measure (\<lambda>x. case x of
      Inl (env, cs, output, st) \<Rightarrow> 2 * size_list size cs + 1
    | Inr (env, n, output, st) \<Rightarrow> 2 * size n)")
    (auto intro: content_measure cell_content_measure)

section \<open>Example inputs\<close>

definition plain_cell :: node where
  "plain_cell = Node (Some (ascii ''table_cell'')) None (Some []) None None"

definition wide_cell :: node where
  "wide_cell =
     Node (Some (ascii ''table_cell'')) (Some [ascii ''colspan'' \<mapsto> JInt 2]) (Some []) None None"

definition table_row :: "node list \<Rightarrow> node" where
  "table_row cells = Node (Some (ascii ''table_row'')) None (Some cells) None None"

definition table_of :: "node list \<Rightarrow> node" where
  "table_of rows = Node (Some (ascii ''table'')) None (Some rows) None None"

lemmas example_defs = plain_cell_def wide_cell_def table_row_def table_of_def ascii_def

lemmas scan_defs = get_table_cell_merges_def get_cell_tracking_table_def scan_row_def
  place_cell_def tracking_get_def tracking_set_def mark_extent_def span_attr_def as_int_def

definition env0 :: env where
  "env0 = \<lparr>toRoman = (\<lambda>n. if n = 1 then Inr [73] else Inl (Raised (ascii ''OutOfRangeError''))),
     roman_lower = map (\<lambda>c. if 65 \<le> c \<and> c \<le> 90 then c + 32 else c),
     unicode_isspace = (\<lambda>c. False), unicode_decimal = (\<lambda>c. None),
     pt_from_em = (\<lambda>s. Inl ValueError), image_path = (\<lambda>s. Inr None)\<rparr>"


text \<open>
  \<open>start_state title\<close> is the state in which \<open>parse_boxnote_json\<close> calls
  \<open>parse_contents\<close> for the first document of a run: the new document holds one
  paragraph with the title at 32 points, which is the current paragraph, and the globals
  have their initial values.
\<close>

definition start_state :: "pystr \<Rightarrow> state" where
  "start_state title =
     \<lparr>doc_paragraphs = (\<lambda>p. empty_paragraph)(0 :=
        \<lparr>inlines = [Direct ((new_run title)\<lparr>run_size := Some (Pt 32)\<rparr>)], alignment = None,
         bottom_borders = 0\<rparr>),
      doc_cells = (\<lambda>c. \<lparr>cell_paragraphs = [], cell_fills = []\<rparr>),
      doc_tables = (\<lambda>t. \<lparr>table_columns = 0, table_style = None, table_cells = [], table_merges = []\<rparr>),
      doc_body = [BlockParagraph 0],
      doc_next = 1,
      current_paragraph = Some 0,
      use_table_cell_paragraph = False,
      current_table_cell = None,
      list_type = None,
      list_depths = Map.empty,
      bullet_list_level = 0,
      ordered_list_level = 0,
      check_list_level = 0,
      in_bullet_list_item = False,
      in_ordered_list_item = False,
      in_check_list_item = False,
      is_check_list_item_checked = False,
      in_callout = False,
      callout_emoji = JNull,
      callout_bg_color = None,
      in_code_block = False\<rparr>"

definition bare_node :: "string \<Rightarrow> node" where
  "bare_node ty = Node (Some (ascii ty)) None None None None"

definition node_of :: "string \<Rightarrow> node list \<Rightarrow> node" where
  "node_of ty cs = Node (Some (ascii ty)) None (Some cs) None None"

definition text_node :: "string \<Rightarrow> node" where
  "text_node t = Node (Some (ascii ''text'')) None None (Some (ascii t)) None"

lemmas node_defs = bare_node_def node_of_def text_node_def


definition marked_node :: "mark list \<Rightarrow> node" where
  "marked_node ms = Node (Some (ascii ''text'')) None None None (Some ms)"

definition strong_mark :: mark where
  "strong_mark = Mark (Some (ascii ''strong'')) None"

definition color_mark :: "string \<Rightarrow> mark" where
  "color_mark c = Mark (Some (ascii ''font_color'')) (Some [ascii ''color'' \<mapsto> JStr (ascii c)])"

lemmas mark_defs = marked_node_def strong_mark_def color_mark_def

lemmas int16_defs = get_color_from_hex_def py_int16_def strip_sign_def strip_prefix16_def
  is_space_def digit_value_def RGBColor_def


definition counted_state :: state where
  "counted_state = (start_state [])\<lparr>list_depths := [1 \<mapsto> 5]\<rparr>"

definition item_with_text :: "string \<Rightarrow> node" where
  "item_with_text t = node_of ''list_item'' [node_of ''paragraph'' [text_node t]]"


section \<open>Ordinal formatter: properties\<close>

lemma get_ordered_list_char_cycle:
  "get_ordered_list_char env (d + 3) p = get_ordered_list_char env d p"
  by (simp add: get_ordered_list_char_def)

lemma get_ordered_list_char_alpha_1: "get_ordered_list_char env 2 1 = Inr (ascii ''a.'')"
  by (simp add: get_ordered_list_char_def ascii_def)

lemma get_ordered_list_char_alpha_27: "get_ordered_list_char env 2 27 = Inr (ascii ''aa.'')"
  by (simp add: get_ordered_list_char_def ascii_def)

lemma get_ordered_list_char_decimal_3: "get_ordered_list_char env 1 3 = Inr (ascii ''3.'')"
  by (simp add: get_ordered_list_char_def ascii_def str_int_def)

text \<open>
  C1. The marker of depth 2 and ordinal 26 is expected to be \<open>z.\<close> (bijective base 26).
  The source writes the plain base-26 digits of 26, which are 1 and 0, and turns the
  digit 0 into \<open>chr(96)\<close>, the backquote: the marker is the three code points
  97, 96, 46, that is \<open>a\<close>, a backquote and a full stop.
\<close>

theorem get_ordered_list_char_alpha_26:
  "get_ordered_list_char env 2 26 = Inr [97, 96, 46]
   \<and> get_ordered_list_char env 2 26 \<noteq> Inr (ascii ''z.'')"
  by (simp add: get_ordered_list_char_def ascii_def)

section \<open>Table geometry: properties\<close>

text \<open>
  C2. For a table of one row holding one cell that has no \<open>attrs\<close>, the column count
  is expected to be 1 (an absent colspan counts as 1). \<open>get_table_dimensions\<close> adds
  nothing for such a cell and reports 0 columns, although \<open>get_table_cell_merges\<close>
  reads the same cell with colspan 1.
\<close>

theorem get_table_dimensions_plain_cell:
  "get_table_dimensions (table_of [table_row [plain_cell]]) = Inr (1, 0)
   \<and> span_attr plain_cell (ascii ''colspan'') = JInt 1"
  by (simp add: example_defs get_table_dimensions_def as_int_def span_attr_def)

section \<open>Colours: properties\<close>

text \<open>
  A well-formed colour is \<open>#\<close> followed by six hexadecimal digits; \<open>channel h i\<close> is
  the value of the two digits at positions \<open>i\<close> and \<open>i + 1\<close>.
\<close>

definition is_hex_digit :: "nat \<Rightarrow> bool" where
  "is_hex_digit c = ((48 \<le> c \<and> c \<le> 57) \<or> (97 \<le> c \<and> c \<le> 102) \<or> (65 \<le> c \<and> c \<le> 70))"

definition hex_value :: "nat \<Rightarrow> nat" where
  "hex_value c = (if c \<le> 57 then c - 48 else if 97 \<le> c then c - 87 else c - 55)"

definition well_formed_hex :: "pystr \<Rightarrow> bool" where
  "well_formed_hex h = (length h = 7 \<and> h ! 0 = 35 \<and> list_all is_hex_digit (tl h))"

definition channel :: "pystr \<Rightarrow> nat \<Rightarrow> int" where
  "channel h i = int (16 * hex_value (h ! i) + hex_value (h ! Suc i))"

lemma hex_value_bound: "is_hex_digit c \<Longrightarrow> hex_value c < 16"
  by (auto simp add: is_hex_digit_def hex_value_def)

lemma digit_value_hex: "is_hex_digit c \<Longrightarrow> digit_value env c = Some (hex_value c)"
  by (auto simp add: is_hex_digit_def hex_value_def digit_value_def)

lemma hex_digit_plain:
  "is_hex_digit c \<Longrightarrow> \<not> is_space env c \<and> c \<noteq> 43 \<and> c \<noteq> 45 \<and> c \<noteq> 95 \<and> c \<noteq> 120 \<and> c \<noteq> 88"
  by (auto simp add: is_hex_digit_def is_space_def)

lemma scan_digits_two:
  assumes "is_hex_digit a" "is_hex_digit b"
  shows "scan_digits env False 0 0 [a, b] = Some (2, 16 * hex_value a + hex_value b, [])"
  using assms hex_digit_plain[of a env] hex_digit_plain[of b env]
  by (simp add: digit_value_hex hex_value_bound)

lemma py_int16_two_digits:
  assumes "is_hex_digit a" "is_hex_digit b"
  shows "py_int16 env [a, b] = Inr (int (16 * hex_value a + hex_value b))"
proof -
  have 1: "dropWhile (is_space env) [a, b] = [a, b]"
    using hex_digit_plain[OF assms(1), of env] by simp
  have 2: "strip_sign [a, b] = (False, [a, b])"
    using hex_digit_plain[OF assms(1), of env] by (simp add: strip_sign_def)
  have 3: "strip_prefix16 [a, b] = [a, b]"
    using hex_digit_plain[OF assms(2), of env] by (simp add: strip_prefix16_def)
  show ?thesis
    using hex_digit_plain[OF assms(1), of env]
    by (simp add: py_int16_def 1 2 3 scan_digits_two[OF assms] Let_def del: scan_digits.simps)
qed

lemma py_int16_error: "py_int16 env s = Inl e \<Longrightarrow> e = ValueError"
  unfolding py_int16_def Let_def
  by (simp split: prod.splits if_splits option.splits)

lemma RGBColor_error: "RGBColor r g b = Inl e \<Longrightarrow> e = ValueError"
  by (simp add: RGBColor_def split: if_splits)


lemma well_formed_hex_shape:
  assumes "well_formed_hex h"
  obtains c1 c2 c3 c4 c5 c6 where "h = [35, c1, c2, c3, c4, c5, c6]"
    "is_hex_digit c1" "is_hex_digit c2" "is_hex_digit c3" "is_hex_digit c4" "is_hex_digit c5" "is_hex_digit c6"
proof -
  from assms have len: "length h = 7" by (simp add: well_formed_hex_def)
  then obtain c0 c1 c2 c3 c4 c5 c6 where h: "h = [c0, c1, c2, c3, c4, c5, c6]"
    by (auto simp add: length_Suc_conv eval_nat_numeral)
  with assms that show thesis by (simp add: well_formed_hex_def)
qed

text \<open>
  C9 (as amended). For every well-formed \<open>#RRGGBB\<close> string \<open>get_color_from_hex\<close>
  returns the three channel values read from the two-digit groups, each in 0..255; and
  whenever it fails on a str it fails with \<open>ValueError\<close>.
\<close>

theorem get_color_from_hex_channels:
  "(well_formed_hex h \<longrightarrow>
      get_color_from_hex env (JStr h) = Inr (channel h 1, channel h 3, channel h 5)
      \<and> (\<forall>i \<in> {1, 3, 5}. 0 \<le> channel h i \<and> channel h i \<le> 255))
   \<and> (\<forall>e. get_color_from_hex env (JStr h) = Inl e \<longrightarrow> e = ValueError)"
proof (intro conjI impI allI)
  assume wf: "well_formed_hex h"
  then obtain c1 c2 c3 c4 c5 c6 where h: "h = [35, c1, c2, c3, c4, c5, c6]"
    and d: "is_hex_digit c1" "is_hex_digit c2" "is_hex_digit c3" "is_hex_digit c4" "is_hex_digit c5" "is_hex_digit c6"
    by (rule well_formed_hex_shape)
  have b: "hex_value c1 < 16" "hex_value c2 < 16" "hex_value c3 < 16" "hex_value c4 < 16" "hex_value c5 < 16" "hex_value c6 < 16"
    using d by (simp_all add: hex_value_bound)
  have s: "take 2 (drop 1 h) = [c1, c2]" "take 2 (drop 3 h) = [c3, c4]" "take 2 (drop 5 h) = [c5, c6]"
    by (simp_all add: h eval_nat_numeral)
  have c: "channel h 1 = int (16 * hex_value c1 + hex_value c2)"
    "channel h 3 = int (16 * hex_value c3 + hex_value c4)"
    "channel h 5 = int (16 * hex_value c5 + hex_value c6)"
    by (simp_all add: h channel_def eval_nat_numeral)
  have p: "py_int16 env (take 2 (drop 1 h)) = Inr (channel h 1)"
    "py_int16 env (take 2 (drop 3 h)) = Inr (channel h 3)"
    "py_int16 env (take 2 (drop 5 h)) = Inr (channel h 5)"
    unfolding s c by (simp_all only: py_int16_two_digits d)
  have r: "RGBColor (channel h 1) (channel h 3) (channel h 5) = Inr (channel h 1, channel h 3, channel h 5)"
    using b c by (simp add: RGBColor_def)
  show "get_color_from_hex env (JStr h) = Inr (channel h 1, channel h 3, channel h 5)"
    by (simp only: get_color_from_hex_def jval.case p sum.case r)
  show "\<forall>i \<in> {1, 3, 5}. 0 \<le> channel h i \<and> channel h i \<le> 255"
    using b c by simp
next
  fix e assume "get_color_from_hex env (JStr h) = Inl e"
  then show "e = ValueError"
    by (auto simp add: get_color_from_hex_def split: sum.splits dest: py_int16_error RGBColor_error)
qed

theorem get_color_from_hex_channels_witness:
  "well_formed_hex (ascii ''#1a2B3c'')
   \<and> get_color_from_hex env0 (JStr (ascii ''#1a2B3c'')) = Inr (26, 43, 60)"
proof -
  have wf: "well_formed_hex (ascii ''#1a2B3c'')"
    by (simp add: well_formed_hex_def ascii_def is_hex_digit_def)
  have "channel (ascii ''#1a2B3c'') 1 = 26" "channel (ascii ''#1a2B3c'') 3 = 43" "channel (ascii ''#1a2B3c'') 5 = 60"
    by (simp_all add: channel_def ascii_def hex_value_def eval_nat_numeral)
  with wf get_color_from_hex_channels[of "ascii ''#1a2B3c''" env0] show ?thesis by simp
qed

text \<open>
  C9 as stated fails: the conversion checks neither the length nor the leading
  character. A string of nine characters and a string without \<open>#\<close> are converted, and
  a string that is refused raises \<open>ValueError\<close>, not \<open>MalformedColorError\<close>.
\<close>

theorem get_color_from_hex_unchecked:
  "get_color_from_hex env0 (JStr (ascii ''#11223344'')) = Inr (17, 34, 51)
   \<and> length (ascii ''#11223344'') \<noteq> 7
   \<and> get_color_from_hex env0 (JStr (ascii ''x112233'')) = Inr (17, 34, 51)
   \<and> get_color_from_hex env0 (JStr (ascii ''red'')) = Inl ValueError
   \<and> ValueError \<noteq> Raised (ascii ''MalformedColorError'')"
  by (simp add: get_color_from_hex_def ascii_def py_int16_def strip_sign_def strip_prefix16_def is_space_def digit_value_def RGBColor_def)


section \<open>Table geometry: the scan\<close>

text \<open>
  Notions used to state the properties of the scan: \<open>occ g\<close> is the set of occupied
  coordinates of a tracking table; \<open>row_span\<close>, \<open>col_span\<close> are the spans of a
  declaration as numbers, \<open>exceeds\<close> the test \<open>rowspan > 1 or colspan > 1\<close>,
  \<open>rect_of cell origin\<close> the extent of a declaration placed at \<open>origin\<close>, and
  \<open>slots_of\<close> the number of slots a declaration can occupy.
\<close>

definition occ :: "bool list list \<Rightarrow> (nat \<times> nat) set" where
  "occ g = {(r, c). r < length g \<and> c < length (g ! r) \<and> g ! r ! c}"

lemma for_each_inv:
  assumes "for_each f xs s = Inr s'" "P s"
    and "\<And>x t t'. x \<in> set xs \<Longrightarrow> P t \<Longrightarrow> f x t = Inr t' \<Longrightarrow> P t'"
  shows "P s'"
  using assms
proof (induction xs arbitrary: s)
  case Nil
  then show ?case by simp
next
  case (Cons x xs)
  from Cons.prems(1) obtain t where t: "f x s = Inr t" "for_each f xs t = Inr s'"
    by (auto split: sum.splits)
  have "P t" using Cons.prems(3)[of x s t] Cons.prems(2) t(1) by simp
  moreover have "\<And>y u u'. y \<in> set xs \<Longrightarrow> P u \<Longrightarrow> f y u = Inr u' \<Longrightarrow> P u'"
    using Cons.prems(3) by (meson list.set_intros(2))
  ultimately show ?case using Cons.IH[OF t(2)] by blast
qed

lemma for_each_error:
  assumes "for_each f xs s = Inl e" "P s"
    and "\<And>x t t'. x \<in> set xs \<Longrightarrow> P t \<Longrightarrow> f x t = Inr t' \<Longrightarrow> P t'"
    and "\<And>x t. x \<in> set xs \<Longrightarrow> P t \<Longrightarrow> f x t = Inl e \<Longrightarrow> Q"
  shows "Q"
  using assms
proof (induction xs arbitrary: s)
  case Nil
  then show ?case by simp
next
  case (Cons x xs)
  show ?case
  proof (cases "f x s")
    case (Inl e')
    with Cons.prems(1) have "e' = e" by simp
    with Inl Cons.prems(2) Cons.prems(4)[of x s] show ?thesis by simp
  next
    case (Inr t)
    with Cons.prems(1) have r: "for_each f xs t = Inl e" by simp
    have "P t" using Cons.prems(3)[of x s t] Cons.prems(2) Inr by simp
    moreover have "\<And>y u u'. y \<in> set xs \<Longrightarrow> P u \<Longrightarrow> f y u = Inr u' \<Longrightarrow> P u'"
      using Cons.prems(3) by (meson list.set_intros(2))
    moreover have "\<And>y u. y \<in> set xs \<Longrightarrow> P u \<Longrightarrow> f y u = Inl e \<Longrightarrow> Q"
      using Cons.prems(4) by (meson list.set_intros(2))
    ultimately show ?thesis using Cons.IH[OF r] by blast
  qed
qed

lemma for_each_append:
  "for_each f (xs @ ys) s = (case for_each f xs s of Inl e \<Rightarrow> Inl e | Inr t \<Rightarrow> for_each f ys t)"
  by (induction xs arbitrary: s) (auto split: sum.splits)

lemma tracking_set_Inr:
  assumes "tracking_set r c g = Inr g'"
  shows "r < length g" "c < length (g ! r)" "map length g' = map length g"
    "occ g' = insert (r, c) (occ g)"
proof -
  from assms show r: "r < length g" and c: "c < length (g ! r)"
    by (auto simp add: tracking_set_def split: if_splits)
  from assms r c have g': "g' = g[r := (g ! r)[c := True]]"
    by (simp add: tracking_set_def)
  show "map length g' = map length g"
    using r by (simp add: g' map_update list_update_same_conv)
  show "occ g' = insert (r, c) (occ g)"
    using r c by (auto simp add: g' occ_def nth_list_update split: if_splits)
qed

lemma tracking_set_ok:
  "r < length g \<Longrightarrow> c < length (g ! r) \<Longrightarrow> \<exists>g'. tracking_set r c g = Inr g'"
  by (simp add: tracking_set_def)

lemma tracking_set_error: "tracking_set r c g = Inl e \<Longrightarrow> e = IndexError"
  by (simp add: tracking_set_def split: if_splits)

lemma shape_nth: "map length g' = map length g \<Longrightarrow> length g' = length g \<and> (\<forall>i < length g. length (g' ! i) = length (g ! i))"
  by (metis length_map nth_map)

lemma mark_cols_Inr:
  "for_each (\<lambda>i_c. tracking_set i_r i_c) cols g = Inr g' \<Longrightarrow>
     map length g' = map length g \<and> occ g' = occ g \<union> {i_r} \<times> set cols"
proof (induction cols arbitrary: g)
  case Nil
  then show ?case by simp
next
  case (Cons c cols)
  from Cons.prems obtain g1 where g1: "tracking_set i_r c g = Inr g1"
    "for_each (\<lambda>i_c. tracking_set i_r i_c) cols g1 = Inr g'"
    by (auto split: sum.splits)
  from tracking_set_Inr[OF g1(1)] Cons.IH[OF g1(2)] show ?case by auto
qed

lemma mark_cols_error:
  "for_each (\<lambda>i_c. tracking_set i_r i_c) cols g = Inl e \<Longrightarrow> e = IndexError"
  by (induction cols arbitrary: g) (auto split: sum.splits dest: tracking_set_error)

lemma mark_cols_ok:
  "i_r < length g \<Longrightarrow> \<forall>c \<in> set cols. c < length (g ! i_r) \<Longrightarrow>
     \<exists>g'. for_each (\<lambda>i_c. tracking_set i_r i_c) cols g = Inr g'"
proof (induction cols arbitrary: g)
  case Nil
  then show ?case by simp
next
  case (Cons c cols)
  then obtain g1 where g1: "tracking_set i_r c g = Inr g1"
    using tracking_set_ok[of i_r g c] by auto
  from tracking_set_Inr(3)[OF g1] have sh: "length g1 = length g" "length (g1 ! i_r) = length (g ! i_r)"
    using shape_nth[of g1 g] Cons.prems(1) by auto
  with Cons.IH[of g1] Cons.prems g1 show ?case by simp
qed

lemma mark_extent_Inr:
  assumes "mark_extent i_row i_col rowspan colspan g = Inr g'"
  shows "map length g' = map length g"
    "occ g' = occ g \<union> {i_row ..< nat (int i_row + rowspan)} \<times> {i_col ..< nat (int i_col + colspan)}"
proof -
  define cols where "cols = [i_col ..< nat (int i_col + colspan)]"
  have gen: "for_each (\<lambda>i_r. for_each (\<lambda>i_c. tracking_set i_r i_c) cols) rows g = Inr g' \<Longrightarrow>
     map length g' = map length g \<and> occ g' = occ g \<union> set rows \<times> set cols" for rows g
  proof (induction rows arbitrary: g)
    case Nil
    then show ?case by simp
  next
    case (Cons r rows)
    from Cons.prems obtain g1 where g1: "for_each (\<lambda>i_c. tracking_set r i_c) cols g = Inr g1"
      "for_each (\<lambda>i_r. for_each (\<lambda>i_c. tracking_set i_r i_c) cols) rows g1 = Inr g'"
      by (auto split: sum.splits)
    from mark_cols_Inr[OF g1(1)] Cons.IH[OF g1(2)] show ?case by auto
  qed
  from assms have "for_each (\<lambda>i_r. for_each (\<lambda>i_c. tracking_set i_r i_c) cols) [i_row ..< nat (int i_row + rowspan)] g = Inr g'"
    by (simp add: mark_extent_def cols_def)
  from gen[OF this] show "map length g' = map length g"
    "occ g' = occ g \<union> {i_row ..< nat (int i_row + rowspan)} \<times> {i_col ..< nat (int i_col + colspan)}"
    by (simp_all add: cols_def)
qed

lemma mark_extent_error:
  assumes "mark_extent i_row i_col rowspan colspan g = Inl e"
  shows "e = IndexError"
proof -
  have "for_each (\<lambda>i_r. for_each (\<lambda>i_c. tracking_set i_r i_c) cols) rows g = Inl e \<Longrightarrow> e = IndexError" for rows cols g
    by (induction rows arbitrary: g) (auto split: sum.splits dest: mark_cols_error)
  with assms show ?thesis by (simp add: mark_extent_def)
qed

lemma mark_extent_ok:
  assumes "\<forall>r \<in> {i_row ..< nat (int i_row + rowspan)}. r < length g \<and>
     (\<forall>c \<in> {i_col ..< nat (int i_col + colspan)}. c < length (g ! r))"
  shows "\<exists>g'. mark_extent i_row i_col rowspan colspan g = Inr g'"
proof -
  define cols where "cols = [i_col ..< nat (int i_col + colspan)]"
  have gen: "\<forall>r \<in> set rows. r < length g \<and> (\<forall>c \<in> set cols. c < length (g ! r)) \<Longrightarrow>
     \<exists>g'. for_each (\<lambda>i_r. for_each (\<lambda>i_c. tracking_set i_r i_c) cols) rows g = Inr g'" for rows g
  proof (induction rows arbitrary: g)
    case Nil
    then show ?case by simp
  next
    case (Cons r rows)
    then obtain g1 where g1: "for_each (\<lambda>i_c. tracking_set r i_c) cols g = Inr g1"
      using mark_cols_ok[of r g cols] by auto
    from mark_cols_Inr[OF g1] have "map length g1 = map length g" by simp
    then have sh: "length g1 = length g" "\<forall>i < length g. length (g1 ! i) = length (g ! i)"
      using shape_nth[of g1 g] by auto
    have "\<forall>r \<in> set rows. r < length g1 \<and> (\<forall>c \<in> set cols. c < length (g1 ! r))"
      using Cons.prems sh by auto
    from Cons.IH[OF this] g1 show ?case by simp
  qed
  from gen[of "[i_row ..< nat (int i_row + rowspan)]" g] assms show ?thesis
    by (simp add: mark_extent_def cols_def)
qed


definition numeric_spans :: "node \<Rightarrow> bool" where
  "numeric_spans cell =
     (case as_int (span_attr cell (ascii ''rowspan'')) of
        Inl _ \<Rightarrow> False
      | Inr _ \<Rightarrow> (case as_int (span_attr cell (ascii ''colspan'')) of Inl _ \<Rightarrow> False | Inr _ \<Rightarrow> True))"

definition row_span :: "node \<Rightarrow> int" where
  "row_span cell = (case as_int (span_attr cell (ascii ''rowspan'')) of Inl _ \<Rightarrow> 1 | Inr n \<Rightarrow> n)"

definition col_span :: "node \<Rightarrow> int" where
  "col_span cell = (case as_int (span_attr cell (ascii ''colspan'')) of Inl _ \<Rightarrow> 1 | Inr n \<Rightarrow> n)"

definition exceeds :: "node \<Rightarrow> bool" where
  "exceeds cell = (row_span cell > 1 \<or> col_span cell > 1)"

definition rect_of :: "node \<Rightarrow> nat \<times> nat \<Rightarrow> (nat \<times> nat) set" where
  "rect_of cell origin =
     {fst origin ..< nat (int (fst origin) + row_span cell)}
       \<times> {snd origin ..< nat (int (snd origin) + col_span cell)}"

definition slots_of :: "node \<Rightarrow> nat" where
  "slots_of cell = (if exceeds cell then max 1 (nat (row_span cell) * nat (col_span cell)) else 1)"

lemma numeric_spans_as_int:
  assumes "numeric_spans cell"
  shows "as_int (span_attr cell (ascii ''rowspan'')) = Inr (row_span cell)"
    "as_int (span_attr cell (ascii ''colspan'')) = Inr (col_span cell)"
  using assms by (auto simp add: numeric_spans_def row_span_def col_span_def split: sum.splits)

lemma as_int_error: "as_int v = Inl e \<Longrightarrow> e = TypeError"
  by (cases v) (simp_all add: as_int_def)

lemma place_cell_occupied: "(i, j) \<in> occ (tracking s) \<Longrightarrow> place_cell i j s = Inr s"
  by (simp add: place_cell_def tracking_get_def occ_def)

lemma place_cell_free:
  assumes "(i, j) \<notin> occ (tracking s)" "i < length (tracking s)" "j < length (tracking s ! i)"
    and "queue s = q @ [cell]" "numeric_spans cell"
  shows "place_cell i j s =
     (if exceeds cell then
        (case mark_extent i j (row_span cell) (col_span cell)
                ((tracking s)[i := (tracking s ! i)[j := True]]) of
           Inl e \<Rightarrow> Inl e
         | Inr g2 \<Rightarrow>
             Inr \<lparr>tracking = g2, queue = q,
               cell_merges = AList.update (i, j) (row_span cell, col_span cell) (cell_merges s),
               placed = placed s @ [(i, j)]\<rparr>)
      else Inr \<lparr>tracking = (tracking s)[i := (tracking s ! i)[j := True]], queue = q,
             cell_merges = cell_merges s, placed = placed s @ [(i, j)]\<rparr>)"
proof -
  have free: "tracking_get (tracking s) i j = Inr False"
    using assms(1-3) by (simp add: tracking_get_def occ_def)
  have set: "tracking_set i j (tracking s) = Inr ((tracking s)[i := (tracking s ! i)[j := True]])"
    using assms(2,3) by (simp add: tracking_set_def)
  show ?thesis
    unfolding place_cell_def free set
    by (simp add: assms(4) numeric_spans_as_int[OF assms(5)] exceeds_def)
qed

lemma place_cell_Inr:
  assumes "place_cell i j s = Inr s'"
  shows "i < length (tracking s) \<and> j < length (tracking s ! i) \<and>
     ((i, j) \<in> occ (tracking s) \<and> s' = s
      \<or> (i, j) \<notin> occ (tracking s) \<and> queue s \<noteq> [] \<and> numeric_spans (last (queue s)))"
  using assms
  by (auto simp add: place_cell_def tracking_get_def occ_def numeric_spans_def Let_def
      split: sum.splits if_splits)

lemma place_cell_error:
  assumes "place_cell i j s = Inl e" "\<forall>cell \<in> set (queue s). numeric_spans cell"
  shows "e = IndexError"
proof (cases "(i, j) \<in> occ (tracking s)")
  case True
  with assms(1) show ?thesis by (simp add: place_cell_occupied)
next
  case False
  show ?thesis
  proof (cases "i < length (tracking s) \<and> j < length (tracking s ! i)")
    case inr: True
    show ?thesis
    proof (cases "queue s = []")
      case True
      with assms(1) inr False show ?thesis
        by (simp add: place_cell_def tracking_get_def tracking_set_def occ_def)
    next
      case nonempty: False
      then obtain q cell where q: "queue s = q @ [cell]"
        by (metis rev_exhaust)
      with assms(2) have "numeric_spans cell" by simp
      from place_cell_free[OF False _ _ q this] inr assms(1) show ?thesis
        by (auto split: if_splits sum.splits dest: mark_extent_error)
    qed
  next
    case False
    with assms(1) show ?thesis
      by (auto simp add: place_cell_def tracking_get_def split: if_splits)
  qed
qed


definition place :: "nat \<times> nat \<Rightarrow> scan_state \<Rightarrow> error + scan_state" where
  "place p = place_cell (fst p) (snd p)"

lemma for_each_map: "for_each f (map h xs) s = for_each (\<lambda>x. f (h x)) xs s"
  by (induction xs arbitrary: s) (auto split: sum.splits)

lemma place_cell_step:
  assumes "place_cell i j s = Inr s'" "(i, j) \<notin> occ (tracking s)"
  obtains q cell where "queue s = q @ [cell]" "numeric_spans cell" "queue s' = q"
    "placed s' = placed s @ [(i, j)]"
    "map length (tracking s') = map length (tracking s)"
    "occ (tracking s') = insert (i, j) (occ (tracking s)) \<union> (if exceeds cell then rect_of cell (i, j) else {})"
    "cell_merges s' = (if exceeds cell then AList.update (i, j) (row_span cell, col_span cell) (cell_merges s)
       else cell_merges s)"
proof -
  from place_cell_Inr[OF assms(1)] assms(2)
  have rng: "i < length (tracking s)" "j < length (tracking s ! i)"
    and ne: "queue s \<noteq> []" and num: "numeric_spans (last (queue s))"
    by auto
  define cell where "cell = last (queue s)"
  define q where "q = butlast (queue s)"
  have qs: "queue s = q @ [cell]" using ne by (simp add: q_def cell_def)
  define g1 where "g1 = (tracking s)[i := (tracking s ! i)[j := True]]"
  have set1: "tracking_set i j (tracking s) = Inr g1"
    using rng by (simp add: tracking_set_def g1_def)
  note g1_facts = tracking_set_Inr(3,4)[OF set1]
  note pf = place_cell_free[OF assms(2) rng qs num[folded cell_def], folded g1_def]
  show thesis
  proof (cases "exceeds cell")
    case True
    with pf assms(1) obtain g2 where g2: "mark_extent i j (row_span cell) (col_span cell) g1 = Inr g2"
      and s': "s' = \<lparr>tracking = g2, queue = q,
               cell_merges = AList.update (i, j) (row_span cell, col_span cell) (cell_merges s),
               placed = placed s @ [(i, j)]\<rparr>"
      by (auto split: sum.splits)
    from mark_extent_Inr[OF g2] g1_facts
    have "map length g2 = map length (tracking s)"
      "occ g2 = insert (i, j) (occ (tracking s)) \<union> rect_of cell (i, j)"
      by (auto simp add: rect_of_def)
    with that[OF qs num[folded cell_def]] True s' show ?thesis by simp
  next
    case False
    with pf assms(1) have s': "s' = \<lparr>tracking = g1, queue = q,
             cell_merges = cell_merges s, placed = placed s @ [(i, j)]\<rparr>"
      by simp
    with that[OF qs num[folded cell_def]] False g1_facts show ?thesis by simp
  qed
qed

lemma place_cell_shape:
  assumes "place_cell i j s = Inr s'"
  shows "map length (tracking s') = map length (tracking s)"
proof (cases "(i, j) \<in> occ (tracking s)")
  case True
  with assms show ?thesis by (simp add: place_cell_occupied)
next
  case False
  from place_cell_step[OF assms False] show ?thesis by metis
qed

lemma place_cell_occ_mono:
  assumes "place_cell i j s = Inr s'"
  shows "occ (tracking s) \<subseteq> occ (tracking s')" "(i, j) \<in> occ (tracking s')"
proof -
  have "occ (tracking s) \<subseteq> occ (tracking s') \<and> (i, j) \<in> occ (tracking s')"
  proof (cases "(i, j) \<in> occ (tracking s)")
    case True
    with assms show ?thesis by (simp add: place_cell_occupied)
  next
    case False
    from place_cell_step[OF assms False] show ?thesis by (metis Un_iff insertI1 subsetI insertI2)
  qed
  then show "occ (tracking s) \<subseteq> occ (tracking s')" "(i, j) \<in> occ (tracking s')" by simp_all
qed

lemma scan_flat:
  assumes "map length (tracking s) = replicate R C" "set rows \<subseteq> {..<R}"
  shows "for_each scan_row rows s = for_each place (List.product rows [0 ..< C]) s"
  using assms
proof (induction rows arbitrary: s)
  case Nil
  then show ?case by simp
next
  case (Cons i rows)
  from Cons.prems have i: "i < R" by simp
  from Cons.prems(1) have len: "length (tracking s) = R"
    by (metis length_map length_replicate)
  from Cons.prems(1) i len have leni: "length (tracking s ! i) = C"
    by (metis nth_map nth_replicate)
  have row: "scan_row i s = for_each place (map (Pair i) [0 ..< C]) s"
    using i len leni by (simp add: scan_row_def for_each_map place_def)
  show ?case
  proof (cases "scan_row i s")
    case (Inl e)
    then show ?thesis using row by (simp add: for_each_append)
  next
    case (Inr t)
    have "map length (tracking t) = replicate R C"
    proof (rule for_each_inv[where P = "\<lambda>u. map length (tracking u) = replicate R C"])
      show "for_each place (map (Pair i) [0 ..< C]) s = Inr t" using Inr row by simp
      show "map length (tracking s) = replicate R C" by (rule Cons.prems(1))
      show "\<And>x u u'. x \<in> set (map (Pair i) [0 ..< C]) \<Longrightarrow> map length (tracking u) = replicate R C \<Longrightarrow>
          place x u = Inr u' \<Longrightarrow> map length (tracking u') = replicate R C"
        by (simp add: place_def place_cell_shape)
    qed
    from Cons.IH[OF this] Cons.prems(2) Inr row show ?thesis
      by (simp add: for_each_append)
  qed
qed

lemma occ_bounded:
  assumes "map length g = replicate R C"
  shows "occ g \<subseteq> {..<R} \<times> {..<C}"
proof
  fix p assume "p \<in> occ g"
  then obtain r c where p: "p = (r, c)" "r < length g" "c < length (g ! r)"
    by (auto simp add: occ_def)
  from assms have "length g = R" by (metis length_map length_replicate)
  moreover from this assms p(2) have "length (g ! r) = C" by (metis nth_map nth_replicate)
  ultimately show "p \<in> {..<R} \<times> {..<C}" using p by simp
qed

lemma for_each_covers:
  assumes "for_each f xs s = Inr s'" "P s"
    and step: "\<And>x t t'. P t \<Longrightarrow> f x t = Inr t' \<Longrightarrow> P t' \<and> Cov x t'"
    and mono: "\<And>x y t t'. P t \<Longrightarrow> f y t = Inr t' \<Longrightarrow> Cov x t \<Longrightarrow> Cov x t'"
  shows "\<forall>x \<in> set xs. Cov x s'"
  using assms(1,2)
proof (induction xs arbitrary: s)
  case Nil
  then show ?case by simp
next
  case (Cons x xs)
  from Cons.prems(1) obtain t where t: "f x s = Inr t" "for_each f xs t = Inr s'"
    by (auto split: sum.splits)
  from step[OF Cons.prems(2) t(1)] have Pt: "P t" and cx: "Cov x t" by simp_all
  have "P s' \<and> Cov x s'"
    by (rule for_each_inv[where P = "\<lambda>u. P u \<and> Cov x u", OF t(2)])
      (use Pt cx step mono in blast)+
  with Cons.IH[OF t(2) Pt] show ?case by simp
qed


lemma occ_fresh: "occ (get_cell_tracking_table r c) = {}"
  by (auto simp add: occ_def get_cell_tracking_table_def)

lemma shape_fresh: "map length (get_cell_tracking_table r c) = replicate (nat r) (nat c)"
  by (simp add: get_cell_tracking_table_def)

lemma card_rect_of: "card (rect_of cell (i, j)) = nat (row_span cell) * nat (col_span cell)"
proof -
  have "nat (int i + row_span cell) - i = nat (row_span cell)"
    "nat (int j + col_span cell) - j = nat (col_span cell)"
    by linarith+
  then show ?thesis by (simp add: rect_of_def card_cartesian_product)
qed

lemma origin_in_rect:
  "1 \<le> row_span cell \<Longrightarrow> 1 \<le> col_span cell \<Longrightarrow> (i, j) \<in> rect_of cell (i, j)"
  by (auto simp add: rect_of_def)

lemma rect_of_empty:
  "\<not> (1 \<le> row_span cell \<and> 1 \<le> col_span cell) \<Longrightarrow> rect_of cell (i, j) = {}"
  by (auto simp add: rect_of_def)

lemma card_after_place:
  assumes "finite X"
  shows "card (insert (i, j) X \<union> (if exceeds cell then rect_of cell (i, j) else {})) \<le> card X + slots_of cell"
proof (cases "exceeds cell")
  case False
  then show ?thesis using assms by (simp add: slots_of_def card_insert_if)
next
  case True
  show ?thesis
  proof (cases "1 \<le> row_span cell \<and> 1 \<le> col_span cell")
    case inside: True
    then have "insert (i, j) X \<union> rect_of cell (i, j) = X \<union> rect_of cell (i, j)"
      using origin_in_rect[of cell i j] by auto
    moreover have "card (X \<union> rect_of cell (i, j)) \<le> card X + card (rect_of cell (i, j))"
      by (rule card_Un_le)
    ultimately show ?thesis using True by (simp add: slots_of_def card_rect_of)
  next
    case False
    then have "rect_of cell (i, j) = {}" by (rule rect_of_empty)
    then show ?thesis using True assms by (simp add: slots_of_def card_insert_if)
  qed
qed

text \<open>
  C4 (as amended). A table whose declarations have numeric spans and cover fewer slots
  than the fresh \<open>r\<close> by \<open>c\<close> tracking table holds (a plain declaration covers one
  slot, a spanning one its rowspan times colspan) makes \<open>get_table_cell_merges\<close> raise
  \<open>IndexError\<close>: the built-in exception of \<open>pop()\<close> on the exhausted list (or of
  marking a cell outside the table on the way).
\<close>

theorem get_table_cell_merges_too_few:
  assumes num: "\<forall>cell \<in> set cells. numeric_spans cell"
    and few: "sum_list (map slots_of cells) < nat r * nat c"
  shows "get_table_cell_merges (get_cell_tracking_table r c) cells = Inl IndexError"
proof -
  define R where "R = nat r"
  define C where "C = nat c"
  define s0 where "s0 = \<lparr>tracking = get_cell_tracking_table r c, queue = rev cells,
    cell_merges = [], placed = []\<rparr>"
  define total where "total = sum_list (map slots_of cells)"
  define positions where "positions = List.product [0 ..< R] [0 ..< C]"
  have shape0: "map length (tracking s0) = replicate R C"
    by (simp add: s0_def shape_fresh R_def C_def)
  have sub: "set [0 ..< R] \<subseteq> {..<R}" by auto
  have flat: "get_table_cell_merges (get_cell_tracking_table r c) cells = for_each place positions s0"
    unfolding get_table_cell_merges_def positions_def
    using scan_flat[OF shape0 sub]
    by (simp add: s0_def get_cell_tracking_table_def R_def)
  show ?thesis
  proof (cases "for_each place positions s0")
    case (Inl e)
    have "e = IndexError"
    proof (rule for_each_error[where P = "\<lambda>t. \<forall>cell \<in> set (queue t). numeric_spans cell", OF Inl])
      show "\<forall>cell \<in> set (queue s0). numeric_spans cell" using num by (simp add: s0_def)
    next
      fix x t t'
      assume P: "\<forall>cell \<in> set (queue t). numeric_spans cell" and st: "place x t = Inr t'"
      show "\<forall>cell \<in> set (queue t'). numeric_spans cell"
      proof (cases "x \<in> occ (tracking t)")
        case True
        with st P show ?thesis by (cases x) (simp add: place_def place_cell_occupied)
      next
        case False
        obtain i j where x: "x = (i, j)" by (cases x)
        from st False x have "place_cell i j t = Inr t'" "(i, j) \<notin> occ (tracking t)"
          by (simp_all add: place_def)
        from place_cell_step[OF this] P show ?thesis by (metis Un_iff set_append)
      qed
    next
      fix x t
      assume "\<forall>cell \<in> set (queue t). numeric_spans cell" "place x t = Inl e"
      then show "e = IndexError" by (simp add: place_def place_cell_error)
    qed
    with Inl flat show ?thesis by simp
  next
    case (Inr s')
    let ?P = "\<lambda>t. map length (tracking t) = replicate R C
       \<and> card (occ (tracking t)) + sum_list (map slots_of (queue t)) \<le> total"
    have "?P s'"
    proof (rule for_each_inv[where P = ?P, OF Inr])
      show "?P s0" using shape0 by (simp add: s0_def occ_fresh total_def rev_map[symmetric])
    next
      fix x t t'
      assume P: "?P t" and st: "place x t = Inr t'"
      show "?P t'"
      proof (cases "x \<in> occ (tracking t)")
        case True
        with st P show ?thesis by (cases x) (simp add: place_def place_cell_occupied)
      next
        case False
        obtain i j where x: "x = (i, j)" by (cases x)
        from st False x have pc: "place_cell i j t = Inr t'" "(i, j) \<notin> occ (tracking t)"
          by (simp_all add: place_def)
        have fin: "finite (occ (tracking t))"
          using occ_bounded[of "tracking t" R C] P by (meson finite_SigmaI finite_lessThan finite_subset)
        from place_cell_step[OF pc] obtain q cell where
          q: "queue t = q @ [cell]" "queue t' = q"
          and sh: "map length (tracking t') = map length (tracking t)"
          and oc: "occ (tracking t') = insert (i, j) (occ (tracking t)) \<union> (if exceeds cell then rect_of cell (i, j) else {})"
          by metis
        have "card (occ (tracking t')) \<le> card (occ (tracking t)) + slots_of cell"
          unfolding oc by (rule card_after_place[OF fin])
        with P q sh show ?thesis by simp
      qed
    qed
    moreover have cov: "\<forall>x \<in> set positions. x \<in> occ (tracking s')"
    proof (rule for_each_covers[where P = "\<lambda>t. True" and Cov = "\<lambda>x t. x \<in> occ (tracking t)", OF Inr])
      show True by simp
    next
      fix x t t' assume "place x t = Inr t'"
      then show "True \<and> x \<in> occ (tracking t')"
        using place_cell_occ_mono(2)[of "fst x" "snd x" t t'] by (simp add: place_def)
    next
      fix x y t t' assume "place y t = Inr t'" "x \<in> occ (tracking t)"
      then show "x \<in> occ (tracking t')"
        using place_cell_occ_mono(1)[of "fst y" "snd y" t t'] by (auto simp add: place_def)
    qed
    ultimately have sh: "map length (tracking s') = replicate R C"
      and le: "card (occ (tracking s')) \<le> total" by simp_all
    have "occ (tracking s') = {..<R} \<times> {..<C}"
      using occ_bounded[OF sh] cov by (auto simp add: positions_def)
    then have "card (occ (tracking s')) = R * C" by (simp add: card_cartesian_product)
    with le few show ?thesis by (simp add: total_def R_def C_def)
  qed
qed


definition lexless :: "nat \<times> nat \<Rightarrow> nat \<times> nat \<Rightarrow> bool" where
  "lexless a b = (fst a < fst b \<or> (fst a = fst b \<and> snd a < snd b))"

definition tiles :: "nat \<Rightarrow> nat \<Rightarrow> node list \<Rightarrow> (nat \<times> nat) list \<Rightarrow> bool" where
  "tiles R C cells origins =
     (length origins = length cells
      \<and> (\<forall>cell \<in> set cells. numeric_spans cell \<and> 1 \<le> row_span cell \<and> 1 \<le> col_span cell)
      \<and> sorted_wrt lexless origins
      \<and> (\<forall>i < length cells. \<forall>j < length cells. i \<noteq> j \<longrightarrow>
            rect_of (cells ! i) (origins ! i) \<inter> rect_of (cells ! j) (origins ! j) = {})
      \<and> (\<Union>i < length cells. rect_of (cells ! i) (origins ! i)) = {..<R} \<times> {..<C})"

definition merges_of :: "node list \<Rightarrow> (nat \<times> nat) list \<Rightarrow> ((nat \<times> nat) \<times> (int \<times> int)) list" where
  "merges_of cells origins =
     map (\<lambda>(cell, origin). (origin, (row_span cell, col_span cell)))
       (filter (\<lambda>(cell, origin). exceeds cell) (zip cells origins))"

lemma sorted_product:
  "sorted_wrt (<) xs \<Longrightarrow> sorted_wrt (<) ys \<Longrightarrow> sorted_wrt lexless (List.product xs ys)"
proof (induction xs)
  case Nil
  then show ?case by simp
next
  case (Cons x xs)
  have "sorted_wrt lexless (map (Pair x) ys)"
    using Cons.prems(2) by (simp add: sorted_wrt_map lexless_def)
  moreover have "\<forall>a \<in> set (map (Pair x) ys). \<forall>b \<in> set (List.product xs ys). lexless a b"
    using Cons.prems(1) by (auto simp add: lexless_def)
  ultimately show ?case using Cons by (simp add: sorted_wrt_append)
qed

lemma positions_before:
  assumes split: "List.product [0 ..< R] [0 ..< C] = seen @ p # todo"
    and q: "q \<in> {..<R} \<times> {..<C}" and less: "lexless q p"
  shows "q \<in> set seen"
proof -
  have "sorted_wrt lexless (seen @ p # todo)"
    using sorted_product[of "[0 ..< R]" "[0 ..< C]"] split by (simp add: sorted_wrt_iff_nth_less)
  then have after: "\<forall>b \<in> set todo. lexless p b"
    by (simp add: sorted_wrt_append)
  have "q \<in> set (seen @ p # todo)"
    using q split[symmetric] by auto
  moreover have "q \<noteq> p" using less by (auto simp add: lexless_def)
  moreover have "q \<notin> set todo" using after less by (auto simp add: lexless_def)
  ultimately show ?thesis by simp
qed

lemma update_fresh: "k \<notin> fst ` set al \<Longrightarrow> AList.update k v al = al @ [(k, v)]"
  by (induction al) auto

lemma merges_of_keys: "fst ` set (merges_of cells origins) \<subseteq> set origins"
  by (auto simp add: merges_of_def dest: set_zip_rightD)

lemma merges_of_snoc:
  assumes "k < length cells" "length origins = length cells"
  shows "merges_of (take (Suc k) cells) (take (Suc k) origins) =
     merges_of (take k cells) (take k origins) @
       (if exceeds (cells ! k) then [(origins ! k, (row_span (cells ! k), col_span (cells ! k)))] else [])"
  using assms by (simp add: merges_of_def take_Suc_conv_app_nth)

lemma full_grid:
  assumes sh: "map length g = replicate R C" and full: "{..<R} \<times> {..<C} \<subseteq> occ g"
  shows "g = replicate R (replicate C True)"
proof (rule nth_equalityI)
  from sh show len: "length g = length (replicate R (replicate C True))"
    by (metis length_map length_replicate)
  fix i assume i: "i < length g"
  with len have iR: "i < R" by simp
  from sh i iR have leni: "length (g ! i) = C" by (metis nth_map nth_replicate)
  have "g ! i = replicate C True"
  proof (rule nth_equalityI)
    show "length (g ! i) = length (replicate C True)" using leni by simp
    fix j assume "j < length (g ! i)"
    with leni iR full have "(i, j) \<in> occ g" by auto
    then show "g ! i ! j = replicate C True ! j" using leni \<open>j < length (g ! i)\<close>
      by (simp add: occ_def)
  qed
  then show "g ! i = replicate R (replicate C True) ! i" using iR by simp
qed


lemma tiles_origin_in:
  assumes "tiles R C cells origins" "i < length cells"
  shows "origins ! i \<in> rect_of (cells ! i) (origins ! i)"
proof -
  from assms have "1 \<le> row_span (cells ! i)" "1 \<le> col_span (cells ! i)"
    by (simp_all add: tiles_def)
  from origin_in_rect[OF this, of "fst (origins ! i)" "snd (origins ! i)"] show ?thesis by simp
qed

lemma tiles_rect_in_grid:
  assumes "tiles R C cells origins" "i < length cells"
  shows "rect_of (cells ! i) (origins ! i) \<subseteq> {..<R} \<times> {..<C}"
proof -
  from assms(1) have "(\<Union>i < length cells. rect_of (cells ! i) (origins ! i)) = {..<R} \<times> {..<C}"
    by (simp add: tiles_def)
  with assms(2) show ?thesis by blast
qed

lemma tiles_unique:
  assumes "tiles R C cells origins" "i < length cells" "j < length cells"
    and "x \<in> rect_of (cells ! i) (origins ! i)" "x \<in> rect_of (cells ! j) (origins ! j)"
  shows "i = j"
proof (rule ccontr)
  assume "i \<noteq> j"
  with assms(1-3) have "rect_of (cells ! i) (origins ! i) \<inter> rect_of (cells ! j) (origins ! j) = {}"
    by (simp add: tiles_def)
  with assms(4,5) show False by blast
qed

lemma rect_origin_le:
  assumes "(r, c) \<in> rect_of cell origin" "origin \<noteq> (r, c)"
  shows "lexless origin (r, c)"
  using assms by (cases origin) (auto simp add: rect_of_def lexless_def)

lemma tiles_next:
  assumes T: "tiles R C cells origins"
    and split: "List.product [0 ..< R] [0 ..< C] = seen @ p # todo"
    and k: "k \<le> length cells"
    and seen: "set seen \<subseteq> (\<Union>i < k. rect_of (cells ! i) (origins ! i))"
    and free: "p \<notin> (\<Union>i < k. rect_of (cells ! i) (origins ! i))"
  shows "k < length cells \<and> origins ! k = p"
proof -
  let ?rect = "\<lambda>i. rect_of (cells ! i) (origins ! i)"
  have pin: "p \<in> {..<R} \<times> {..<C}"
  proof -
    have "p \<in> set (List.product [0 ..< R] [0 ..< C])" unfolding split by simp
    then show ?thesis by auto
  qed
  from T have "(\<Union>i < length cells. ?rect i) = {..<R} \<times> {..<C}" by (simp add: tiles_def)
  with pin obtain j where j: "j < length cells" "p \<in> ?rect j" by blast
  have kj: "k \<le> j"
  proof (rule ccontr)
    assume "\<not> k \<le> j"
    with j(2) free show False by auto
  qed
  have early: "\<And>i. i < length cells \<Longrightarrow> k \<le> i \<Longrightarrow> lexless (origins ! i) p \<Longrightarrow> False"
  proof -
    fix i assume i: "i < length cells" "k \<le> i" "lexless (origins ! i) p"
    have "origins ! i \<in> ?rect i" by (rule tiles_origin_in[OF T i(1)])
    with tiles_rect_in_grid[OF T i(1)] have "origins ! i \<in> {..<R} \<times> {..<C}" by blast
    from positions_before[OF split this i(3)] seen
    obtain i' where i': "i' < k" "origins ! i \<in> ?rect i'" by blast
    with k have "i' < length cells" by simp
    from tiles_unique[OF T this i(1) i'(2) \<open>origins ! i \<in> ?rect i\<close>] i'(1) i(2) show False by simp
  qed
  have oj: "origins ! j = p"
  proof (rule ccontr)
    assume ne: "origins ! j \<noteq> p"
    obtain r c where p: "p = (r, c)" by (cases p)
    from rect_origin_le[OF j(2)[unfolded p] ne[unfolded p]] early[OF j(1) kj] p show False by simp
  qed
  have "j = k"
  proof (rule ccontr)
    assume "j \<noteq> k"
    with kj have lt: "k < j" by simp
    from T have "sorted_wrt lexless origins" "length origins = length cells" by (simp_all add: tiles_def)
    with lt j(1) have "lexless (origins ! k) (origins ! j)"
      by (simp add: sorted_wrt_nth_less)
    with early[of k] lt j(1) oj show False by simp
  qed
  with j(1) oj show ?thesis by simp
qed


definition scan_at :: "node list \<Rightarrow> (nat \<times> nat) list \<Rightarrow> nat \<Rightarrow> bool list list \<Rightarrow> scan_state" where
  "scan_at cells origins k g =
     \<lparr>tracking = g, queue = rev (drop k cells),
      cell_merges = merges_of (take k cells) (take k origins), placed = take k origins\<rparr>"

definition covered :: "node list \<Rightarrow> (nat \<times> nat) list \<Rightarrow> nat \<Rightarrow> (nat \<times> nat) set" where
  "covered cells origins k = (\<Union>i < k. rect_of (cells ! i) (origins ! i))"

lemma covered_Suc:
  "covered cells origins (Suc k) = covered cells origins k \<union> rect_of (cells ! k) (origins ! k)"
  by (auto simp add: covered_def less_Suc_eq)

lemma place_tile:
  assumes T: "tiles R C cells origins"
    and k: "k < length cells" and p: "origins ! k = p"
    and sh: "map length g = replicate R C"
    and oc: "occ g = covered cells origins k"
    and free: "p \<notin> occ g"
  shows "\<exists>g'. place p (scan_at cells origins k g) = Inr (scan_at cells origins (Suc k) g')
     \<and> map length g' = replicate R C \<and> occ g' = covered cells origins (Suc k)"
proof -
  obtain r c where rc: "p = (r, c)" by (cases p)
  define cell where "cell = cells ! k"
  from T k have num: "numeric_spans cell" and ge: "1 \<le> row_span cell" "1 \<le> col_span cell"
    by (simp_all add: tiles_def cell_def)
  from T have len: "length origins = length cells" by (simp add: tiles_def)
  have pin_rect: "p \<in> rect_of cell p"
    using tiles_origin_in[OF T k] p by (simp add: cell_def)
  have rect_grid: "rect_of cell p \<subseteq> {..<R} \<times> {..<C}"
    using tiles_rect_in_grid[OF T k] p by (simp add: cell_def)
  from pin_rect rect_grid rc have rR: "r < R" and cC: "c < C" by auto
  from sh have lg: "length g = R" by (metis length_map length_replicate)
  have rowlen: "\<And>i. i < R \<Longrightarrow> length (g ! i) = C"
    using sh lg by (metis nth_map nth_replicate)
  define g1 where "g1 = g[r := (g ! r)[c := True]]"
  have set1: "tracking_set r c g = Inr g1"
    using rR cC lg rowlen by (simp add: tracking_set_def g1_def)
  from tracking_set_Inr(3,4)[OF set1] sh rc
  have sh1: "map length g1 = replicate R C" and oc1: "occ g1 = insert p (occ g)" by simp_all
  have q: "queue (scan_at cells origins k g) = rev (drop (Suc k) cells) @ [cell]"
    using k by (simp add: scan_at_def cell_def Cons_nth_drop_Suc[symmetric])
  have keys: "p \<notin> fst ` set (merges_of (take k cells) (take k origins))"
  proof
    assume "p \<in> fst ` set (merges_of (take k cells) (take k origins))"
    with merges_of_keys have "p \<in> set (take k origins)" by blast
    then obtain i where i: "i < k" "origins ! i = p"
      using len k by (auto simp add: in_set_conv_nth)
    with k have "i < length cells" by simp
    from tiles_origin_in[OF T this] i have "p \<in> covered cells origins k"
      by (auto simp add: covered_def)
    with oc free show False by simp
  qed
  have placed': "take k origins @ [p] = take (Suc k) origins"
    using k len p by (simp add: take_Suc_conv_app_nth)
  have merges': "merges_of (take (Suc k) cells) (take (Suc k) origins) =
      merges_of (take k cells) (take k origins) @
        (if exceeds cell then [(p, (row_span cell, col_span cell))] else [])"
    using merges_of_snoc[OF k len] p by (simp add: cell_def)
  have free': "(r, c) \<notin> occ (tracking (scan_at cells origins k g))"
    using free rc by (simp add: scan_at_def)
  have rng: "r < length (tracking (scan_at cells origins k g))"
    "c < length (tracking (scan_at cells origins k g) ! r)"
    using rR cC lg rowlen by (simp_all add: scan_at_def)
  note pf = place_cell_free[OF free' rng q num]
  show ?thesis
  proof (cases "exceeds cell")
    case True
    have "\<forall>i \<in> {r ..< nat (int r + row_span cell)}. i < length g1 \<and>
       (\<forall>j \<in> {c ..< nat (int c + col_span cell)}. j < length (g1 ! i))"
    proof (intro ballI conjI)
      fix i assume i: "i \<in> {r ..< nat (int r + row_span cell)}"
      have "(i, c) \<in> rect_of cell p" using i ge rc by (auto simp add: rect_of_def)
      with rect_grid have iR: "i < R" by auto
      from sh1 have "length g1 = R" by (metis length_map length_replicate)
      with iR show "i < length g1" by simp
      fix j assume j: "j \<in> {c ..< nat (int c + col_span cell)}"
      have "(i, j) \<in> rect_of cell p" using i j rc by (auto simp add: rect_of_def)
      with rect_grid have "j < C" by auto
      moreover have "length (g1 ! i) = C"
        using sh1 iR \<open>length g1 = R\<close> by (metis nth_map nth_replicate)
      ultimately show "j < length (g1 ! i)" by simp
    qed
    from mark_extent_ok[OF this] obtain g2 where
      g2: "mark_extent r c (row_span cell) (col_span cell) g1 = Inr g2" by blast
    from mark_extent_Inr[OF g2] sh1 oc1 rc
    have sh2: "map length g2 = replicate R C"
      and oc2: "occ g2 = insert p (occ g) \<union> rect_of cell p"
      by (simp_all add: rect_of_def)
    have "place p (scan_at cells origins k g) = Inr (scan_at cells origins (Suc k) g2)"
      using pf True g2 keys placed' merges'
      by (simp add: place_def rc scan_at_def g1_def update_fresh)
    moreover have "occ g2 = covered cells origins (Suc k)"
      using oc2 oc pin_rect p by (auto simp add: covered_Suc cell_def)
    ultimately show ?thesis using sh2 by blast
  next
    case False
    have "place p (scan_at cells origins k g) = Inr (scan_at cells origins (Suc k) g1)"
      using pf False placed' merges'
      by (simp add: place_def rc scan_at_def g1_def)
    moreover have "rect_of cell p = {p}"
    proof -
      from False ge have "row_span cell = 1" "col_span cell = 1" by (simp_all add: exceeds_def)
      then show ?thesis using rc by (auto simp add: rect_of_def)
    qed
    then have "occ g1 = covered cells origins (Suc k)"
      using oc1 oc p by (auto simp add: covered_Suc cell_def)
    ultimately show ?thesis using sh1 by blast
  qed
qed

lemma scan_tiles:
  assumes T: "tiles R C cells origins"
  shows "List.product [0 ..< R] [0 ..< C] = seen @ todo \<Longrightarrow> k \<le> length cells \<Longrightarrow>
     map length g = replicate R C \<Longrightarrow> occ g = covered cells origins k \<Longrightarrow> set seen \<subseteq> occ g \<Longrightarrow>
     \<exists>k' g'. k' \<le> length cells
       \<and> for_each place todo (scan_at cells origins k g) = Inr (scan_at cells origins k' g')
       \<and> map length g' = replicate R C \<and> occ g' = covered cells origins k'
       \<and> set (seen @ todo) \<subseteq> occ g'"
proof (induction todo arbitrary: seen k g)
  case Nil
  then show ?case by auto
next
  case (Cons p todo)
  from Cons.prems(1) have split': "List.product [0 ..< R] [0 ..< C] = (seen @ [p]) @ todo" by simp
  show ?case
  proof (cases "p \<in> occ g")
    case True
    have step: "place p (scan_at cells origins k g) = Inr (scan_at cells origins k g)"
      using True by (cases p) (simp add: place_def place_cell_occupied scan_at_def)
    have "set (seen @ [p]) \<subseteq> occ g" using True Cons.prems(5) by simp
    from Cons.IH[OF split' Cons.prems(2,3,4) this] step show ?thesis by simp
  next
    case False
    have "set seen \<subseteq> (\<Union>i < k. rect_of (cells ! i) (origins ! i))"
      "p \<notin> (\<Union>i < k. rect_of (cells ! i) (origins ! i))"
      using Cons.prems(4,5) False by (simp_all add: covered_def)
    from tiles_next[OF T Cons.prems(1,2) this] have k: "k < length cells" and p: "origins ! k = p"
      by simp_all
    from place_tile[OF T k p Cons.prems(3,4) False] obtain g1 where
      g1: "place p (scan_at cells origins k g) = Inr (scan_at cells origins (Suc k) g1)"
        "map length g1 = replicate R C" "occ g1 = covered cells origins (Suc k)"
      by blast
    have "p \<in> occ g1"
      using g1(3) tiles_origin_in[OF T k] p by (auto simp add: covered_Suc)
    moreover have "occ g \<subseteq> occ g1" using g1(3) Cons.prems(4) by (auto simp add: covered_Suc)
    ultimately have "set (seen @ [p]) \<subseteq> occ g1" using Cons.prems(5) by auto
    from Cons.IH[OF split' _ g1(2,3) this] k g1(1) show ?thesis by simp
  qed
qed

lemma scan_recovers_tiling:
  assumes T: "tiles R C cells origins"
  shows "get_table_cell_merges (get_cell_tracking_table (int R) (int C)) cells =
     Inr \<lparr>tracking = replicate R (replicate C True), queue = [],
          cell_merges = merges_of cells origins, placed = origins\<rparr>"
proof -
  define g0 where "g0 = get_cell_tracking_table (int R) (int C)"
  have sh0: "map length g0 = replicate R C" by (simp add: g0_def shape_fresh)
  have s0: "\<lparr>tracking = g0, queue = rev cells, cell_merges = [], placed = []\<rparr> = scan_at cells origins 0 g0"
    by (simp add: scan_at_def merges_of_def)
  have sub: "set [0 ..< R] \<subseteq> {..<R}" by auto
  have flat: "get_table_cell_merges g0 cells =
      for_each place (List.product [0 ..< R] [0 ..< C]) (scan_at cells origins 0 g0)"
    unfolding get_table_cell_merges_def s0[symmetric]
    using scan_flat[of "\<lparr>tracking = g0, queue = rev cells, cell_merges = [], placed = []\<rparr>" R C, OF _ sub] sh0
    by (simp add: g0_def get_cell_tracking_table_def)
  have "occ g0 = covered cells origins 0" by (simp add: g0_def occ_fresh covered_def)
  from scan_tiles[OF T, of "[]" "List.product [0 ..< R] [0 ..< C]" 0 g0, OF _ _ sh0 this]
  obtain k' g' where k': "k' \<le> length cells"
    and res: "for_each place (List.product [0 ..< R] [0 ..< C]) (scan_at cells origins 0 g0)
        = Inr (scan_at cells origins k' g')"
    and sh: "map length g' = replicate R C" and oc: "occ g' = covered cells origins k'"
    and all: "set (List.product [0 ..< R] [0 ..< C]) \<subseteq> occ g'"
    by auto
  have full: "{..<R} \<times> {..<C} \<subseteq> occ g'" using all by auto
  have "k' = length cells"
  proof (rule ccontr)
    assume "k' \<noteq> length cells"
    with k' have lt: "k' < length cells" by simp
    have o: "origins ! k' \<in> rect_of (cells ! k') (origins ! k')" by (rule tiles_origin_in[OF T lt])
    from tiles_rect_in_grid[OF T lt] o have "origins ! k' \<in> {..<R} \<times> {..<C}" by (rule subsetD)
    with full have "origins ! k' \<in> occ g'" by (rule subsetD)
    then have "origins ! k' \<in> covered cells origins k'" by (simp add: oc)
    then obtain i where
      i: "i < k'" "origins ! k' \<in> rect_of (cells ! i) (origins ! i)"
      by (auto simp add: covered_def)
    with lt have "i < length cells" by simp
    from tiles_unique[OF T this lt i(2) o] i(1) show False by simp
  qed
  moreover from T have "length origins = length cells" by (simp add: tiles_def)
  ultimately have "scan_at cells origins k' g' =
      \<lparr>tracking = g', queue = [], cell_merges = merges_of cells origins, placed = origins\<rparr>"
    by (simp add: scan_at_def)
  with res flat full_grid[OF sh full] show ?thesis by (simp add: g0_def)
qed


lemma ex_spans:
  "numeric_spans wide_cell" "row_span wide_cell = 1" "col_span wide_cell = 2"
  "numeric_spans plain_cell" "row_span plain_cell = 1" "col_span plain_cell = 1"
  by (simp_all add: numeric_spans_def row_span_def col_span_def span_attr_def as_int_def example_defs)

lemma ex_tiles: "tiles 2 2 [wide_cell, plain_cell, plain_cell] [(0, 0), (1, 0), (1, 1)]"
proof -
  have r0: "rect_of wide_cell (0, 0) = {(0, 0), (0, Suc 0)}"
    by (auto simp add: rect_of_def ex_spans)
  have r1: "rect_of plain_cell (Suc 0, 0) = {(Suc 0, 0)}"
    "rect_of plain_cell (Suc 0, Suc 0) = {(Suc 0, Suc 0)}"
    by (auto simp add: rect_of_def ex_spans)
  have grid: "{..<2::nat} \<times> {..<2::nat} = {(0, 0), (0, Suc 0), (Suc 0, 0), (Suc 0, Suc 0)}"
    by (auto simp add: eval_nat_numeral less_Suc_eq)
  show ?thesis
    unfolding tiles_def
    by (simp add: All_less_Suc lessThan_Suc r0 r1 grid ex_spans lexless_def insert_commute)
qed

text \<open>
  C3. \<open>tiles R C cells origins\<close> says that the declarations \<open>cells\<close>, placed at
  \<open>origins\<close> (listed in row-major order), tile the \<open>R\<close> by \<open>C\<close> grid exactly: every
  span is a number and at least 1, the extents are pairwise disjoint and their union is
  the whole grid. For every such table the scan of \<open>get_table_cell_merges\<close> pops the
  declarations in declared order onto exactly these origins (each one the first
  coordinate still free in row-major order), ends with every slot occupied and the
  queue empty, and records one merge \<open>(origin, (rowspan, colspan))\<close>, in scan order, for
  exactly the declarations whose span exceeds 1 by 1. In particular, for the 2 by 2
  table whose first row is one cell with colspan 2, the dimensions are (2, 2), the only
  merge is at (0, 0) with rowspan 1 and colspan 2, and the two cells of the second row
  land at (1, 0) and (1, 1).
\<close>

theorem get_table_cell_merges_tiles:
  "(tiles R C cells origins \<longrightarrow>
      get_table_cell_merges (get_cell_tracking_table (int R) (int C)) cells =
        Inr \<lparr>tracking = replicate R (replicate C True), queue = [],
             cell_merges = merges_of cells origins, placed = origins\<rparr>)
   \<and> get_table_dimensions (table_of [table_row [wide_cell], table_row [plain_cell, plain_cell]])
       = Inr (2, 2)
   \<and> get_table_cell_objs (table_of [table_row [wide_cell], table_row [plain_cell, plain_cell]])
       = Inr [wide_cell, plain_cell, plain_cell]
   \<and> get_table_cell_merges (get_cell_tracking_table 2 2) [wide_cell, plain_cell, plain_cell] =
       Inr \<lparr>tracking = [[True, True], [True, True]], queue = [],
            cell_merges = [((0, 0), (1, 2))], placed = [(0, 0), (1, 0), (1, 1)]\<rparr>"
proof (intro conjI impI)
  assume "tiles R C cells origins"
  then show "get_table_cell_merges (get_cell_tracking_table (int R) (int C)) cells =
        Inr \<lparr>tracking = replicate R (replicate C True), queue = [],
             cell_merges = merges_of cells origins, placed = origins\<rparr>"
    by (rule scan_recovers_tiling)
next
  show "get_table_dimensions (table_of [table_row [wide_cell], table_row [plain_cell, plain_cell]])
       = Inr (2, 2)"
    by (simp add: example_defs get_table_dimensions_def as_int_def)
next
  show "get_table_cell_objs (table_of [table_row [wide_cell], table_row [plain_cell, plain_cell]])
       = Inr [wide_cell, plain_cell, plain_cell]"
    by (simp add: get_table_cell_objs_def table_of_def table_row_def)
      (simp add: example_defs)
next
  show "get_table_cell_merges (get_cell_tracking_table 2 2) [wide_cell, plain_cell, plain_cell] =
       Inr \<lparr>tracking = [[True, True], [True, True]], queue = [],
            cell_merges = [((0, 0), (1, 2))], placed = [(0, 0), (1, 0), (1, 1)]\<rparr>"
    by (simp add: scan_defs example_defs upt_rec numeral_2_eq_2)
qed

theorem get_table_cell_merges_tiles_witness:
  "tiles 2 2 [wide_cell, plain_cell, plain_cell] [(0, 0), (1, 0), (1, 1)]
   \<and> get_table_cell_merges (get_cell_tracking_table (int 2) (int 2)) [wide_cell, plain_cell, plain_cell] =
       Inr \<lparr>tracking = replicate 2 (replicate 2 True), queue = [],
            cell_merges = merges_of [wide_cell, plain_cell, plain_cell] [(0, 0), (1, 0), (1, 1)],
            placed = [(0, 0), (1, 0), (1, 1)]\<rparr>
   \<and> merges_of [wide_cell, plain_cell, plain_cell] [(0, 0), (1, 0), (1, 1)] = [((0, 0), (1, 2))]"
proof -
  have m: "merges_of [wide_cell, plain_cell, plain_cell] [(0, 0), (1, 0), (1, 1)] = [((0, 0), (1, 2))]"
    by (simp add: merges_of_def exceeds_def ex_spans)
  show ?thesis
    using get_table_cell_merges_tiles[of 2 2 "[wide_cell, plain_cell, plain_cell]" "[(0, 0), (1, 0), (1, 1)]"]
      ex_tiles m by simp
qed

theorem get_table_cell_merges_too_few_witness:
  "numeric_spans plain_cell \<and> sum_list (map slots_of [plain_cell]) < nat 1 * nat 2
   \<and> get_table_cell_merges (get_cell_tracking_table 1 2) [plain_cell] = Inl IndexError"
proof -
  have 1: "\<forall>cell \<in> set [plain_cell]. numeric_spans cell" by (simp add: ex_spans)
  have 2: "sum_list (map slots_of [plain_cell]) < nat 1 * nat 2"
    by (simp add: slots_of_def exceeds_def ex_spans)
  from get_table_cell_merges_too_few[OF 1 2] 2 show ?thesis by (simp add: ex_spans)
qed

text \<open>
  C4 as stated fails: with one free slot and no declaration the scan raises Python's
  \<open>IndexError\<close>; the source defines no \<open>TableCellCountMismatchError\<close>.
\<close>

theorem get_table_cell_merges_exhausted:
  "get_table_cell_merges (get_cell_tracking_table 1 1) [] = Inl IndexError
   \<and> IndexError \<noteq> Raised (ascii ''TableCellCountMismatchError'')"
  by (simp add: scan_defs upt_rec)


section \<open>Content walker: properties\<close>

lemma parse_bullet_list_type_empty_content:
  "parse_content_type env (node_of ''bullet_list'' []) output st =
     Inr (output, st\<lparr>list_type := Some (ascii ''bullet'')\<rparr>)"
  by (simp add: node_defs ascii_def parse_bullet_list_type_def)

text \<open>
  C5. A list container is expected to leave its nesting counter as it found it, also
  when the node has no content. For a bullet-list, ordered-list or check-list node
  without a \<open>content\<close> key the handler increments the counter and returns at once: the
  counter stays one higher (with \<open>content\<close> present, even empty, the handler does
  decrement it: \<open>parse_bullet_list_type_empty_content\<close>).
\<close>

theorem list_without_content_keeps_increment:
  "parse_content_type env (bare_node ''bullet_list'') output st =
     Inr (output, st\<lparr>list_type := Some (ascii ''bullet''),
                      bullet_list_level := bullet_list_level st + 1\<rparr>)
   \<and> parse_content_type env (bare_node ''ordered_list'') output st =
     Inr (output, st\<lparr>list_type := Some (ascii ''ordered''),
                      ordered_list_level := ordered_list_level st + 1,
                      list_depths := (list_depths st)(ordered_list_level st + 1 \<mapsto> 0)\<rparr>)
   \<and> parse_content_type env (bare_node ''check_list'') output st =
     Inr (output, st\<lparr>list_type := Some (ascii ''check''),
                      check_list_level := check_list_level st + 1\<rparr>)"
  by (simp add: node_defs ascii_def parse_bullet_list_type_def parse_ordered_list_type_def
      parse_check_list_type_def)

text \<open>
  C8. A node with a missing optional key is expected to be handled without an error and
  to yield the shadow text as a str. An image node without \<open>attrs\<close> makes
  \<open>parse_image_type\<close> fall off its end: it returns \<open>None\<close>, not the shadow text, and the
  next handler that appends to the shadow text (here a heading) raises \<open>TypeError\<close>.
\<close>

theorem image_without_attrs_returns_none:
  "parse_content_type env (bare_node ''image'') output st = Inr (None, st)
   \<and> parse_contents env [bare_node ''image'', bare_node ''heading''] output st = Inl TypeError"
  by (simp add: node_defs ascii_def parse_image_type_def parse_heading_type_def str_add_def
      document_add_paragraph_def Let_def)

text \<open>
  C10 (as amended). When the marks of a text node are read without an exception: a node
  without a \<open>text\<close> key leaves the shadow text and the whole state, so every
  paragraph, as they are; a node with a \<open>text\<close> key (given a shadow text that is a str,
  a current paragraph and, inside a call-out, a background colour) appends one inline
  element whose run carries the literal text to the current paragraph, and the literal
  text to the shadow text.
\<close>

theorem parse_text_type_text_key:
  assumes "text_marks env content_obj = Inr sty"
  shows "(ntext content_obj = None \<longrightarrow> parse_text_type env content_obj output st = Inr (output, st))
     \<and> (\<forall>t out p. ntext content_obj = Some t \<and> output = Some out \<and> current_paragraph st = Some p
            \<and> (in_callout st \<longrightarrow> callout_bg_color st \<noteq> None) \<longrightarrow>
          (\<exists>r. run_text r = t
             \<and> parse_text_type env content_obj output st =
                 Inr (Some (out @ t),
                      append_inline p (if is_hyperlink sty then Hyperlink (url sty) r else Direct r) st)))"
proof (intro conjI impI allI)
  assume "ntext content_obj = None"
  then show "parse_text_type env content_obj output st = Inr (output, st)"
    by (simp add: parse_text_type_def assms)
next
  fix t out p
  assume a: "ntext content_obj = Some t \<and> output = Some out \<and> current_paragraph st = Some p
            \<and> (in_callout st \<longrightarrow> callout_bg_color st \<noteq> None)"
  show "\<exists>r. run_text r = t
             \<and> parse_text_type env content_obj output st =
                 Inr (Some (out @ t),
                      append_inline p (if is_hyperlink sty then Hyperlink (url sty) r else Direct r) st)"
  proof (cases "in_callout st")
    case True
    with a obtain fill where fill: "callout_bg_color st = Some fill" by auto
    show ?thesis
      by (rule exI[of _ "(styled_run st sty t)\<lparr>shade_fill := Some fill\<rparr>"])
        (use a True fill in \<open>simp add: parse_text_type_def assms set_run_background_color_def
          str_add_def styled_run_def\<close>)
  next
    case False
    show ?thesis
      by (rule exI[of _ "styled_run st sty t"])
        (use a False in \<open>simp add: parse_text_type_def assms str_add_def styled_run_def\<close>)
  qed
qed

theorem parse_text_type_text_key_witness:
  "text_marks env0 (marked_node [strong_mark]) = Inr (no_style\<lparr>is_bold := True\<rparr>)
   \<and> ntext (marked_node [strong_mark]) = None
   \<and> parse_text_type env0 (marked_node [strong_mark]) (Some (ascii ''abc'')) (start_state [])
       = Inr (Some (ascii ''abc''), start_state [])"
proof -
  have m: "text_marks env0 (marked_node [strong_mark]) = Inr (no_style\<lparr>is_bold := True\<rparr>)"
    by (simp add: text_marks_def text_mark_def mark_defs)
  have n: "ntext (marked_node [strong_mark]) = None" by (simp add: mark_defs)
  from parse_text_type_text_key[OF m, of "Some (ascii ''abc'')" "start_state []"] m n
  show ?thesis by simp
qed

text \<open>
  C10 as stated fails: the marks are read before the \<open>text\<close> key is looked at, and a
  \<open>font_color\<close> mark whose colour does not parse raises \<open>ValueError\<close> for a node
  without text too.
\<close>

theorem parse_text_type_malformed_mark:
  "ntext (marked_node [color_mark ''red'']) = None
   \<and> parse_text_type env0 (marked_node [color_mark ''red'']) (Some []) (start_state [])
       = Inl ValueError"
  by (simp add: mark_defs parse_text_type_def text_marks_def text_mark_def int16_defs ascii_def env0_def)


text \<open>
  C6. An ordered-list node whose content starts with a list item (that has content):
  whatever the counters in \<open>list_depths\<close> were before, so also when an earlier list at
  the same depth had counted further, the content of the first item is walked with the
  counter of the new depth at 1 and with the marker of ordinal 1 appended to the shadow
  text; the rest of the list follows, and the depth is decremented at the end.
\<close>

theorem ordered_list_first_item_is_one:
  assumes "content n = Some (item # rest)" "ntype item = Some (ascii ''list_item'')"
    "content item = Some ics"
  shows "parse_ordered_list_type (parse_contents env) n (Some out) st =
     (case get_ordered_list_char env (ordered_list_level st + 1) 1 of
        Inl e \<Rightarrow> Inl e
      | Inr marker \<Rightarrow>
          (case parse_contents env ics
                  (Some (out @ padding_of (ordered_list_level st + 1) @ marker @ ascii '' ''))
                  (st\<lparr>list_type := Some (ascii ''ordered''),
                      ordered_list_level := ordered_list_level st + 1,
                      list_depths := (list_depths st)(ordered_list_level st + 1 \<mapsto> 1),
                      in_ordered_list_item := True\<rparr>) of
             Inl e \<Rightarrow> Inl e
           | Inr (result, st3) \<Rightarrow>
               (case parse_contents env rest result
                       (st3\<lparr>in_bullet_list_item := False, in_ordered_list_item := False\<rparr>) of
                  Inl e \<Rightarrow> Inl e
                | Inr (result', st4) \<Rightarrow>
                    Inr (result', st4\<lparr>ordered_list_level := ordered_list_level st4 - 1\<rparr>))))"
proof -
  have ne: "ascii ''ordered'' \<noteq> ascii ''bullet''" by (simp add: ascii_def)
  have ty: "ascii ''list_item'' \<noteq> ascii ''heading''" "ascii ''list_item'' \<noteq> ascii ''paragraph''"
    "ascii ''list_item'' \<noteq> ascii ''text''" "ascii ''list_item'' \<noteq> ascii ''bullet_list''"
    "ascii ''list_item'' \<noteq> ascii ''ordered_list''" "ascii ''list_item'' \<noteq> ascii ''check_list''"
    by (simp_all add: ascii_def)
  have item: "parse_content_type env item acc s =
      parse_list_item_type env (parse_contents env) item acc s" for acc s
    using assms(2) ty by simp
  show ?thesis
    using ne
    by (simp add: parse_ordered_list_type_def assms(1) assms(2) item parse_list_item_type_def assms(3)
        count_list_item_def list_item_marker_def str_add_def
        del: parse_content_type.simps split: sum.splits prod.splits)
qed


theorem ordered_list_first_item_is_one_witness:
  "content (node_of ''ordered_list'' [node_of ''list_item'' []]) = Some [node_of ''list_item'' []]
   \<and> ntype (node_of ''list_item'' []) = Some (ascii ''list_item'')
   \<and> content (node_of ''list_item'' []) = Some []
   \<and> list_depths counted_state 1 = Some 5
   \<and> parse_ordered_list_type (parse_contents env0)
        (node_of ''ordered_list'' [node_of ''list_item'' []]) (Some []) counted_state
       = Inr (Some (ascii ''  1. ''),
              counted_state\<lparr>list_type := Some (ascii ''ordered''), list_depths := [1 \<mapsto> 1]\<rparr>)"
proof -
  have 1: "content (node_of ''ordered_list'' [node_of ''list_item'' []]) = Some [node_of ''list_item'' []]"
    and 2: "ntype (node_of ''list_item'' []) = Some (ascii ''list_item'')"
    and 3: "content (node_of ''list_item'' []) = Some []"
    by (simp_all add: node_of_def)
  have lvl: "ordered_list_level counted_state = 0" "list_depths counted_state 1 = Some 5"
    by (simp_all add: counted_state_def start_state_def)
  have m: "get_ordered_list_char env0 1 1 = Inr (ascii ''1.'')"
    by (simp add: get_ordered_list_char_def str_int_def ascii_def)
  have pad: "padding_of 1 = ascii ''  ''" by (simp add: padding_of_def)
  have st: "counted_state\<lparr>list_type := Some (ascii ''ordered''), ordered_list_level := 0 + 1,
        list_depths := (list_depths counted_state)(0 + 1 \<mapsto> 1), in_ordered_list_item := True,
        in_bullet_list_item := False, in_ordered_list_item := False,
        ordered_list_level := 0\<rparr>
      = counted_state\<lparr>list_type := Some (ascii ''ordered''), list_depths := [1 \<mapsto> 1]\<rparr>"
    by (simp add: counted_state_def start_state_def)
  show ?thesis
    using ordered_list_first_item_is_one[OF 1 2 3, of env0 "[]" counted_state] lvl m pad st
    by (simp add: 1 2 3 ascii_def)
qed

text \<open>
  Two ordered lists one after the other in a new document: the second list starts at 1
  again.
\<close>

lemma two_ordered_lists_restart:
  "\<exists>st'. parse_contents env0
      [node_of ''ordered_list'' [item_with_text ''a'', item_with_text ''b''],
       node_of ''ordered_list'' [item_with_text ''c'']]
      (Some []) (start_state [])
    = Inr (Some (ascii ''  1. a'' @ [10] @ ascii ''  2. b'' @ [10] @ ascii ''  1. c'' @ [10]), st')"
  by (simp add: item_with_text_def node_defs ascii_def parse_ordered_list_type_def
      parse_list_item_type_def count_list_item_def list_item_marker_def str_add_def
      parse_paragraph_type_def paragraph_start_def paragraph_open_def paragraph_prefix_def
      parse_text_type_def text_marks_def start_state_def document_add_paragraph_def
      get_ordered_list_char_def str_int_def padding_of_def add_indents_def add_run_def
      append_inline_def Let_def)


end
